theory Spec2Isabelle
  imports Main
begin

section \<open>Python values\<close>

text \<open>
  A Python \<open>str\<close> is a sequence of Unicode code points: slicing (\<open>s[:20]\<close>), regular
  expressions and \<open>strip\<close> all count code points, so a string of the program is a list of
  code points here.  \<open>u\<close> turns an ASCII literal into such a string.
\<close>

type_synonym ustr = "nat list"

definition u :: "string \<Rightarrow> ustr" where
  "u s = map of_char s"

text \<open>
  The values \<open>json.loads\<close> and \<open>r.json()\<close> produce.  A Python \<open>dict\<close> has
  distinct keys; it is kept as an association list, read with \<open>map_of\<close>.  Numbers only ever
  matter here as values that are neither a \<open>dict\<close>, a \<open>list\<close> nor a \<open>str\<close>.
\<close>

datatype json =
    JNull
  | JBool bool
  | JNum int
  | JStr ustr
  | JList "json list"
  | JObj "(ustr \<times> json) list"

text \<open>
  Exceptions (subclasses of \<open>Exception\<close>).  \<open>Failure m\<close> is any exception of a
  library or a remote service whose \<open>str(e)\<close> is \<open>m\<close>; the others are raised by the
  interpreter itself on the value given.
\<close>

datatype exn =
    KeyError ustr
  | IndexError
  | TypeError json
  | AttributeError json
  | HTTPError nat
  | Failure ustr

subsection \<open>Whitespace and \<open>strip\<close>\<close>

text \<open>The code points for which \<open>str.isspace\<close> holds; \<open>\s\<close> of \<open>re\<close> matches the same set.\<close>

definition is_space :: "nat \<Rightarrow> bool" where
  "is_space c \<longleftrightarrow>
     (9 \<le> c \<and> c \<le> 13) \<or> (28 \<le> c \<and> c \<le> 32) \<or> c = 133 \<or> c = 160 \<or> c = 5760 \<or>
     (8192 \<le> c \<and> c \<le> 8202) \<or> c = 8232 \<or> c = 8233 \<or> c = 8239 \<or> c = 8287 \<or> c = 12288"

definition strip_chars :: "(nat \<Rightarrow> bool) \<Rightarrow> ustr \<Rightarrow> ustr" where
  "strip_chars p s = rev (dropWhile p (rev (dropWhile p s)))"

definition strip :: "ustr \<Rightarrow> ustr" where
  "strip s = strip_chars is_space s"

definition endswith :: "ustr \<Rightarrow> ustr \<Rightarrow> bool" where
  "endswith s suffix \<longleftrightarrow> length suffix \<le> length s \<and> drop (length s - length suffix) s = suffix"

section \<open>The world outside the orchestrator\<close>

datatype level = Info | Error | Success

datatype status = InProgress | Completed

text \<open>The dictionaries handed to \<open>json.dumps\<close> and then to \<open>broadcast\<close>.\<close>

datatype event =
    Log json ustr level
  | PlanEvent "json list"
  | StatusUpdate json status

text \<open>Calls that leave the process.\<close>

datatype request =
    PlannerPost ustr
  | KnowledgePost ustr
  | Sleep nat
  | DdgsText ustr
  | ChatPostMessage ustr ustr
  | MessagesCreate ustr ustr
  | CalendarRun ustr bool

text \<open>
  \<open>published\<close>: the events \<open>broadcast\<close> has delivered, oldest first.
  \<open>files\<close>: the knowledge directory as \<open>os.listdir\<close> lists it, name and content.
  \<open>knowledge\<close>: the attribute \<open>KnowledgeAgent.knowledge\<close>.
  \<open>requests\<close>: the outside calls made so far.
  \<open>calls\<close>: the invocations of \<open>_execute_step\<close> that returned, with agent, action and
  returned text.
\<close>

record world =
  published :: "event list"
  files :: "(ustr \<times> ustr) list"
  knowledge :: ustr
  requests :: "request list"
  calls :: "(json \<times> json \<times> ustr) list"

record response =
  status_code :: nat
  json_body :: "exn + json"

text \<open>
  Everything the code does not decide itself: the behaviour of the services, of the file
  system and of the event sink, each as a function of the world at the moment of the call,
  and the tables of the interpreter that depend on its Unicode version.
\<close>

record env =
  sink :: "world \<Rightarrow> event \<Rightarrow> exn option"
  groq_api_key :: bool
  planner_post :: "world \<Rightarrow> ustr \<Rightarrow> exn + response"
  json_loads :: "ustr \<Rightarrow> exn + json"
  knowledge_post :: "world \<Rightarrow> ustr \<Rightarrow> exn + response"
  read_error :: "world \<Rightarrow> ustr \<Rightarrow> exn option"
  open_error :: "world \<Rightarrow> ustr \<Rightarrow> exn option"
  write_error :: "world \<Rightarrow> ustr \<Rightarrow> (exn \<times> nat) option"
  ddgs_text :: "world \<Rightarrow> ustr \<Rightarrow> exn + (ustr \<times> ustr) list"
  chat_postMessage :: "world \<Rightarrow> ustr \<Rightarrow> ustr \<Rightarrow> exn option"
  twilio_client :: bool
  messages_create :: "world \<Rightarrow> ustr \<Rightarrow> ustr \<Rightarrow> exn + ustr"
  calendar_run :: "world \<Rightarrow> ustr \<Rightarrow> bool \<Rightarrow> exn + ustr"
  unicode_digit :: "nat \<Rightarrow> bool"
  str_lower :: "ustr \<Rightarrow> ustr"
  py_str :: "json \<Rightarrow> ustr"
  builtin_text :: "exn \<Rightarrow> ustr"

text \<open>\<open>str(e)\<close>.\<close>

definition exn_str :: "env \<Rightarrow> exn \<Rightarrow> ustr" where
  "exn_str en e =
     (case e of
        Failure m \<Rightarrow> m
      | KeyError k \<Rightarrow> [39] @ k @ [39]
      | _ \<Rightarrow> builtin_text en e)"

text \<open>A computation either returns a value or raises, and leaves a world behind in both cases.\<close>

datatype 'a res = Ok 'a world | Raise exn world

fun world_of :: "'a res \<Rightarrow> world" where
  "world_of (Ok x w) = w"
| "world_of (Raise e w) = w"

fun returned :: "'a res \<Rightarrow> bool" where
  "returned (Ok x w) = True"
| "returned (Raise e w) = False"

definition log_request :: "request \<Rightarrow> world \<Rightarrow> world" where
  "log_request r w = w\<lparr>requests := requests w @ [r]\<rparr>"

section \<open>Reading a chat completion\<close>

text \<open>\<open>Response.raise_for_status\<close>: an \<open>HTTPError\<close> for the statuses 400 to 599.\<close>

definition raise_for_status :: "response \<Rightarrow> exn option" where
  "raise_for_status r =
     (if 400 \<le> status_code r \<and> status_code r < 600 then Some (HTTPError (status_code r)) else None)"

text \<open>
  \<open>v[key]\<close> for a string key and \<open>v[0]\<close>.  A \<open>dict\<close> read from JSON has no key
  \<open>0\<close>: \<open>KeyError(0)\<close>, whose text is \<open>0\<close>.
\<close>

fun getitem :: "json \<Rightarrow> ustr \<Rightarrow> exn + json" where
  "getitem (JObj kvs) k = (case map_of kvs k of Some v \<Rightarrow> Inr v | None \<Rightarrow> Inl (KeyError k))"
| "getitem v k = Inl (TypeError v)"

fun getitem0 :: "json \<Rightarrow> exn + json" where
  "getitem0 (JList []) = Inl IndexError"
| "getitem0 (JList (x # xs)) = Inr x"
| "getitem0 (JObj kvs) = Inl (Failure (u ''0''))"
| "getitem0 (JStr []) = Inl IndexError"
| "getitem0 (JStr (c # cs)) = Inr (JStr [c])"
| "getitem0 v = Inl (TypeError v)"

text \<open>\<open>r.json()["choices"][0]["message"]["content"]\<close>.\<close>

definition completion_content :: "response \<Rightarrow> exn + json" where
  "completion_content r =
     (case json_body r of
        Inl e \<Rightarrow> Inl e
      | Inr b \<Rightarrow>
          (case getitem b (u ''choices'') of
             Inl e \<Rightarrow> Inl e
           | Inr cs \<Rightarrow>
               (case getitem0 cs of
                  Inl e \<Rightarrow> Inl e
                | Inr c \<Rightarrow>
                    (case getitem c (u ''message'') of
                       Inl e \<Rightarrow> Inl e
                     | Inr m \<Rightarrow> getitem m (u ''content'')))))"

section \<open>Regular expressions\<close>

text \<open>
  The fragment of Python's \<open>re\<close> that the program's patterns use, with the semantics of
  its backtracking matcher: alternatives are tried left to right, a greedy repetition takes
  as many code points as it can and gives them back one at a time, a lazy one takes as few
  as it can and extends one at a time, and \<open>search\<close> tries every start from the left.
  Repetition is only ever applied to a single character class in these patterns.
\<close>

datatype cclass =
    Lit nat
  | LitI nat
  | Dot
  | Space
  | Digit
  | OneOf "cclass list"
  | NoneOf "cclass list"

datatype regex =
    Chr cclass
  | Cat regex regex
  | Alt regex regex
  | Opt regex
  | Rep cclass nat "nat option" bool
  | Grp nat regex
  | Bol

text \<open>
  \<open>LitI c\<close> is the lower-case ASCII letter \<open>c\<close> of a pattern compiled with
  \<open>re.IGNORECASE\<close>: it matches the letter in both cases, and the code points Python folds
  onto it (U+017F for \<open>s\<close>, U+212A for \<open>k\<close>, U+0130 and U+0131 for \<open>i\<close>).
  \<open>Dot\<close> is every code point but the newline.  \<open>Digit\<close> is \<open>\d\<close>: the ASCII
  digits and the other decimal digits of Unicode, \<open>nd\<close>.
\<close>

fun cmatch :: "(nat \<Rightarrow> bool) \<Rightarrow> cclass \<Rightarrow> nat \<Rightarrow> bool" where
  "cmatch nd (Lit c) x = (x = c)"
| "cmatch nd (LitI c) x =
     (x = c \<or> x + 32 = c \<or> (c = 115 \<and> x = 383) \<or> (c = 107 \<and> x = 8490)
      \<or> (c = 105 \<and> (x = 304 \<or> x = 305)))"
| "cmatch nd Dot x = (x \<noteq> 10)"
| "cmatch nd Space x = is_space x"
| "cmatch nd Digit x = ((48 \<le> x \<and> x \<le> 57) \<or> nd x)"
| "cmatch nd (OneOf cs) x = list_ex (\<lambda>c. cmatch nd c x) cs"
| "cmatch nd (NoneOf cs) x = (\<not> list_ex (\<lambda>c. cmatch nd c x) cs)"

text \<open>Group number and matched text, the group closed last first.\<close>

type_synonym caps = "(nat \<times> ustr) list"

definition dec :: "nat option \<Rightarrow> nat option" where
  "dec hi = map_option (\<lambda>h. h - 1) hi"

text \<open>
  \<open>p{lo,hi}\<close> and \<open>p{lo,hi}?\<close> at position \<open>i\<close> with \<open>s\<close> still to read; \<open>k\<close> is
  the rest of the pattern.
\<close>

fun rep_greedy :: "(nat \<Rightarrow> bool) \<Rightarrow> nat \<Rightarrow> nat option \<Rightarrow> nat \<Rightarrow> ustr \<Rightarrow> (nat \<Rightarrow> ustr \<Rightarrow> 'a option) \<Rightarrow> 'a option" where
  "rep_greedy p lo hi i [] k = (if lo = 0 then k i [] else None)"
| "rep_greedy p lo hi i (x # xs) k =
     (if p x \<and> hi \<noteq> Some 0 then
        (case rep_greedy p (lo - 1) (dec hi) (Suc i) xs k of
           Some r \<Rightarrow> Some r
         | None \<Rightarrow> if lo = 0 then k i (x # xs) else None)
      else if lo = 0 then k i (x # xs) else None)"

fun rep_lazy :: "(nat \<Rightarrow> bool) \<Rightarrow> nat \<Rightarrow> nat option \<Rightarrow> nat \<Rightarrow> ustr \<Rightarrow> (nat \<Rightarrow> ustr \<Rightarrow> 'a option) \<Rightarrow> 'a option" where
  "rep_lazy p lo hi i [] k = (if lo = 0 then k i [] else None)"
| "rep_lazy p lo hi i (x # xs) k =
     (case (if lo = 0 then k i (x # xs) else None) of
        Some r \<Rightarrow> Some r
      | None \<Rightarrow>
          if p x \<and> hi \<noteq> Some 0 then rep_lazy p (lo - 1) (dec hi) (Suc i) xs k else None)"

fun rmatch :: "(nat \<Rightarrow> bool) \<Rightarrow> regex \<Rightarrow> nat \<Rightarrow> ustr \<Rightarrow> caps \<Rightarrow> (nat \<Rightarrow> ustr \<Rightarrow> caps \<Rightarrow> 'a option) \<Rightarrow> 'a option" where
  "rmatch nd (Chr c) i s cs k =
     (case s of [] \<Rightarrow> None | x # xs \<Rightarrow> if cmatch nd c x then k (Suc i) xs cs else None)"
| "rmatch nd (Cat a b) i s cs k = rmatch nd a i s cs (\<lambda>i' s' cs'. rmatch nd b i' s' cs' k)"
| "rmatch nd (Alt a b) i s cs k =
     (case rmatch nd a i s cs k of Some r \<Rightarrow> Some r | None \<Rightarrow> rmatch nd b i s cs k)"
| "rmatch nd (Opt a) i s cs k =
     (case rmatch nd a i s cs k of Some r \<Rightarrow> Some r | None \<Rightarrow> k i s cs)"
| "rmatch nd (Rep c lo hi greedy) i s cs k =
     (if greedy then rep_greedy (cmatch nd c) lo hi i s (\<lambda>i' s'. k i' s' cs)
      else rep_lazy (cmatch nd c) lo hi i s (\<lambda>i' s'. k i' s' cs))"
| "rmatch nd (Grp n a) i s cs k =
     rmatch nd a i s cs (\<lambda>i' s' cs'. k i' s' ((n, take (i' - i) s) # cs'))"
| "rmatch nd Bol i s cs k = (if i = 0 then k i s cs else None)"

text \<open>A match: where it starts, where it ends, and its groups.\<close>

record rematch =
  m_start :: nat
  m_end :: nat
  m_groups :: caps

fun search_from :: "(nat \<Rightarrow> bool) \<Rightarrow> regex \<Rightarrow> nat \<Rightarrow> ustr \<Rightarrow> rematch option" where
  "search_from nd r i [] =
     rmatch nd r i [] [] (\<lambda>i' s' cs. Some \<lparr>m_start = i, m_end = i', m_groups = cs\<rparr>)"
| "search_from nd r i (x # xs) =
     (case rmatch nd r i (x # xs) [] (\<lambda>i' s' cs. Some \<lparr>m_start = i, m_end = i', m_groups = cs\<rparr>) of
        Some m \<Rightarrow> Some m
      | None \<Rightarrow> search_from nd r (Suc i) xs)"

definition re_search :: "(nat \<Rightarrow> bool) \<Rightarrow> regex \<Rightarrow> ustr \<Rightarrow> rematch option" where
  "re_search nd r s = search_from nd r 0 s"

text \<open>\<open>m.group(n)\<close> for a group that took part in the match.\<close>

definition m_group :: "rematch \<Rightarrow> nat \<Rightarrow> ustr" where
  "m_group m n = (case map_of (m_groups m) n of Some t \<Rightarrow> t | None \<Rightarrow> [])"

text \<open>Writing patterns: a sequence of parts, a literal word, and a word in lower case under
  \<open>IGNORECASE\<close>, where only letters are affected.\<close>

fun seq :: "regex list \<Rightarrow> regex" where
  "seq [] = Opt Bol"
| "seq [r] = r"
| "seq (r # rs) = Cat r (seq rs)"

definition word :: "string \<Rightarrow> regex" where
  "word s = seq (map (\<lambda>c. Chr (Lit (of_char c))) s)"

definition ichr :: "nat \<Rightarrow> cclass" where
  "ichr c = (if 97 \<le> c \<and> c \<le> 122 then LitI c else Lit c)"

definition iword :: "string \<Rightarrow> regex" where
  "iword s = seq (map (\<lambda>c. Chr (ichr (of_char c))) s)"

abbreviation rep1 :: "cclass \<Rightarrow> regex" where
  "rep1 c \<equiv> Rep c 1 None True"

abbreviation rep0 :: "cclass \<Rightarrow> regex" where
  "rep0 c \<equiv> Rep c 0 None True"

abbreviation quote :: cclass where
  "quote \<equiv> OneOf [Lit 34, Lit 39]"

section \<open>agents.py: SlackAgent\<close>

text \<open>\<open>Post\s+["\'](.+?)["\']\s+to\s+(#[^\s]+)\<close> with \<open>re.IGNORECASE\<close>.\<close>

definition slack_re :: regex where
  "slack_re =
     seq [iword ''post'', rep1 Space, Chr quote, Grp 1 (Rep Dot 1 None False), Chr quote,
          rep1 Space, iword ''to'', rep1 Space,
          Grp 2 (Cat (Chr (Lit 35)) (rep1 (NoneOf [Space])))]"

text \<open>The text returned when the pattern is not found; 34 and 39 are the two quotes.\<close>

definition slack_failed :: ustr where
  "slack_failed =
     u ''Slack failed: Ensure format is 'Post '' @ [34] @ u ''message'' @ [34]
       @ u '' to #channel'' @ [39]"

definition slack_execute :: "env \<Rightarrow> ustr \<Rightarrow> world \<Rightarrow> ustr res" where
  "slack_execute en action w =
     (case re_search (unicode_digit en) slack_re action of
        Some m \<Rightarrow>
          (let msg = m_group m 1; channel = m_group m 2 in
           case chat_postMessage en w channel msg of
             None \<Rightarrow>
               Ok (u ''Message successfully posted to '' @ channel)
                  (log_request (ChatPostMessage channel msg) w)
           | Some e \<Rightarrow>
               Ok (u ''Slack Error: '' @ exn_str en e)
                  (log_request (ChatPostMessage channel msg) w))
      | None \<Rightarrow> Ok slack_failed w)"

section \<open>agents.py: KnowledgeAgent\<close>

text \<open>
  \<open>_load_knowledge\<close>: the contents of the \<open>.txt\<close> files in listing order, each followed
  by a newline; a failing read ends the loop with what was gathered before it.
\<close>

fun load_files :: "env \<Rightarrow> world \<Rightarrow> (ustr \<times> ustr) list \<Rightarrow> ustr \<Rightarrow> ustr" where
  "load_files en w [] full_text = full_text"
| "load_files en w ((filename, content) # rest) full_text =
     (if endswith filename (u ''.txt'') then
        (case read_error en w filename of
           Some e \<Rightarrow> full_text
         | None \<Rightarrow> load_files en w rest (full_text @ content @ [10]))
      else load_files en w rest full_text)"

definition load_knowledge :: "env \<Rightarrow> world \<Rightarrow> ustr" where
  "load_knowledge en w = load_files en w (files w) []"

text \<open>\<open>re.sub(r'[^a-zA-Z0-9_-]', '_', filename)\<close>.\<close>

definition is_alnum :: "nat \<Rightarrow> bool" where
  "is_alnum c \<longleftrightarrow> (97 \<le> c \<and> c \<le> 122) \<or> (65 \<le> c \<and> c \<le> 90) \<or> (48 \<le> c \<and> c \<le> 57)"

definition safe_name :: "ustr \<Rightarrow> ustr" where
  "safe_name filename = map (\<lambda>c. if is_alnum c \<or> c = 95 \<or> c = 45 then c else 95) filename"

text \<open>
  A file of the directory after it was opened with mode \<open>w\<close> and \<open>content\<close> was
  written: its content is replaced, or it is created at the end of the listing.
\<close>

fun write_file :: "ustr \<Rightarrow> ustr \<Rightarrow> (ustr \<times> ustr) list \<Rightarrow> (ustr \<times> ustr) list" where
  "write_file name content [] = [(name, content)]"
| "write_file name content ((n, c) # rest) =
     (if n = name then (n, content) # rest else (n, c) # write_file name content rest)"

text \<open>
  \<open>add_knowledge\<close>.  The \<open>try\<close> can fail at two places.  When \<open>open\<close> raises
  (\<open>open_error\<close>), the directory is as it was.  When \<open>open\<close> has succeeded, the file
  exists and is empty, so a failure of \<open>f.write\<close> or of the flush on leaving the
  \<open>with\<close> block (\<open>write_error\<close>, with the number of code points that reached the file
  before it) leaves the file with that much of the text, none of it when the number is 0.
  In both cases the handler returns the error text, and \<open>self.knowledge\<close> is not
  reloaded.
\<close>

definition add_knowledge :: "env \<Rightarrow> ustr \<Rightarrow> ustr \<Rightarrow> world \<Rightarrow> ustr res" where
  "add_knowledge en filename content w =
     (let name = safe_name filename @ u ''.txt'' in
      case open_error en w name of
        Some e \<Rightarrow> Ok (u ''Error saving knowledge: '' @ exn_str en e) w
      | None \<Rightarrow>
          (case write_error en w name of
             Some (e, n) \<Rightarrow>
               Ok (u ''Error saving knowledge: '' @ exn_str en e)
                  (w\<lparr>files := write_file name (take n (strip content)) (files w)\<rparr>)
           | None \<Rightarrow>
               (let w1 = w\<lparr>files := write_file name (strip content) (files w)\<rparr>;
                    w2 = w1\<lparr>knowledge := load_knowledge en w1\<rparr>
                in Ok (u ''Knowledge successfully stored in '' @ name) w2)))"

text \<open>\<open>KnowledgeAgent.run\<close>; the body of its \<open>try\<close> is \<open>knowledge_answer\<close>.\<close>

definition knowledge_answer :: "env \<Rightarrow> world \<Rightarrow> ustr \<Rightarrow> exn + ustr" where
  "knowledge_answer en w prompt =
     (case knowledge_post en w prompt of
        Inl e \<Rightarrow> Inl e
      | Inr r \<Rightarrow>
          (case raise_for_status r of
             Some e \<Rightarrow> Inl e
           | None \<Rightarrow>
               (case completion_content r of
                  Inl e \<Rightarrow> Inl e
                | Inr (JStr s) \<Rightarrow> Inr (strip s)
                | Inr v \<Rightarrow> Inl (AttributeError v))))"

definition knowledge_agent_run :: "env \<Rightarrow> ustr \<Rightarrow> world \<Rightarrow> ustr res" where
  "knowledge_agent_run en query w =
     (if knowledge w = [] then
        Ok (u ''Knowledge base is empty. I don't have internal info on this.'') w
      else
        (let prompt = u ''Context: '' @ knowledge w @ [10, 10] @ u ''Question: '' @ query
                        @ [10, 10] @ u ''Answer only based on context:''
         in case knowledge_answer en w prompt of
              Inr s \<Rightarrow> Ok s (log_request (KnowledgePost prompt) w)
            | Inl e \<Rightarrow>
                Ok (u ''Knowledge retrieval error: '' @ exn_str en e)
                   (log_request (KnowledgePost prompt) w)))"

section \<open>agents.py: SearchAgent\<close>

text \<open>
  \<open>^(Search for|SearchAgent|find|tell me about)\s+\<close> with \<open>re.IGNORECASE\<close>.  The
  pattern is anchored, so \<open>re.sub\<close> removes at most the one match at the start.
\<close>

definition search_prefix_re :: regex where
  "search_prefix_re =
     seq [Bol,
          Grp 1 (Alt (iword ''search for'')
                  (Alt (iword ''searchagent'') (Alt (iword ''find'') (iword ''tell me about'')))),
          rep1 Space]"

definition clean_query :: "(nat \<Rightarrow> bool) \<Rightarrow> ustr \<Rightarrow> ustr" where
  "clean_query nd query =
     strip (case re_search nd search_prefix_re query of
              Some m \<Rightarrow> take (m_start m) query @ drop (m_end m) query
            | None \<Rightarrow> query)"

text \<open>\<open>"\n".join(...)\<close>.\<close>

fun join_lines :: "ustr list \<Rightarrow> ustr" where
  "join_lines [] = []"
| "join_lines [l] = l"
| "join_lines (l # ls) = l @ [10] @ join_lines ls"

definition search_agent_run :: "env \<Rightarrow> ustr \<Rightarrow> world \<Rightarrow> ustr res" where
  "search_agent_run en query w =
     (let q = clean_query (unicode_digit en) query; w1 = log_request (DdgsText q) w in
      case ddgs_text en w q of
        Inl e \<Rightarrow> Ok (u ''Search error: '' @ exn_str en e) w1
      | Inr [] \<Rightarrow> Ok (u ''No search results found on the web for '' @ [39] @ q @ [39, 46]) w1
      | Inr results \<Rightarrow>
          Ok (join_lines (map (\<lambda>(title, body). title @ u '': '' @ body) results)) w1)"

section \<open>agents.py: CommunicationAgent\<close>

text \<open>\<open>(\+?\d[\d\s-]{9,15})\<close>.\<close>

definition phone_re :: regex where
  "phone_re =
     Grp 1 (seq [Opt (Chr (Lit 43)), Chr Digit, Rep (OneOf [Digit, Space, Lit 45]) 9 (Some 15) True])"

text \<open>
  \<open>s.split(sep)\<close>: the pieces between the occurrences of \<open>sep\<close> found from the left,
  \<open>cur\<close> being the piece in progress, reversed.  An empty separator is a \<open>ValueError\<close>.
\<close>

function split_from :: "ustr \<Rightarrow> ustr \<Rightarrow> ustr \<Rightarrow> ustr list" where
  "split_from sep cur s =
     (if s = [] then [rev cur]
      else if sep \<noteq> [] \<and> take (length sep) s = sep then
        rev cur # split_from sep [] (drop (length sep) s)
      else split_from sep (hd s # cur) (tl s))"
  by pat_completeness auto
termination
  by (relation "measure (\<lambda>(sep, cur, s). length s)") auto

definition str_split :: "ustr \<Rightarrow> ustr \<Rightarrow> exn + ustr list" where
  "str_split s sep = (if sep = [] then Inl (Failure (u ''empty separator'')) else Inr (split_from sep [] s))"

definition replace_char :: "nat \<Rightarrow> ustr \<Rightarrow> ustr" where
  "replace_char c s = filter (\<lambda>x. x \<noteq> c) s"

definition colon_or_blank :: "nat \<Rightarrow> bool" where
  "colon_or_blank c \<longleftrightarrow> c = 58 \<or> c = 32"

text \<open>The number and the body handed to \<open>messages.create\<close>.\<close>

definition to_number :: "ustr \<Rightarrow> ustr" where
  "to_number matched =
     (let to_no = replace_char 45 (replace_char 32 matched) in
      case to_no of
        [] \<Rightarrow> [43]
      | c # cs \<Rightarrow> if c = 43 then to_no else 43 # to_no)"

definition sms_body :: "ustr list \<Rightarrow> ustr" where
  "sms_body pieces = take 160 (strip_chars colon_or_blank (last pieces))"

definition communication_run :: "env \<Rightarrow> ustr \<Rightarrow> world \<Rightarrow> ustr res" where
  "communication_run en action w =
     (case re_search (unicode_digit en) phone_re action of
        Some phone_match \<Rightarrow>
          (if twilio_client en then
             (case str_split action (m_group phone_match 1) of
                Inl e \<Rightarrow> Raise e w
              | Inr pieces \<Rightarrow>
                  (let to_no = to_number (m_group phone_match 1);
                       body = sms_body pieces;
                       w1 = log_request (MessagesCreate to_no body) w
                   in case messages_create en w to_no body of
                        Inr sid \<Rightarrow> Ok (u ''SMS sent! SID: '' @ sid) w1
                      | Inl e \<Rightarrow> Ok (u ''Twilio Error: '' @ exn_str en e) w1))
           else Ok (u ''Communication failed: Ensure phone number is valid.'') w)
      | None \<Rightarrow> Ok (u ''Communication failed: Ensure phone number is valid.'') w)"

section \<open>orchestrator.py\<close>

text \<open>\<open>sub in s\<close>.\<close>

fun contains :: "ustr \<Rightarrow> ustr \<Rightarrow> bool" where
  "contains sub [] = (sub = [])"
| "contains sub (x # xs) = (take (length sub) (x # xs) = sub \<or> contains sub xs)"

text \<open>\<open>broadcast\<close>: an event counts as published once every connection has taken it.\<close>

definition broadcast :: "env \<Rightarrow> event \<Rightarrow> world \<Rightarrow> unit res" where
  "broadcast en ev w =
     (case sink en w ev of
        Some e \<Rightarrow> Raise e w
      | None \<Rightarrow> Ok () (w\<lparr>published := published w @ [ev]\<rparr>))"

text \<open>Sequencing: the second computation runs in the world the first one leaves.\<close>

definition and_then :: "'a res \<Rightarrow> ('a \<Rightarrow> world \<Rightarrow> 'b res) \<Rightarrow> 'b res" where
  "and_then r f = (case r of Ok x w \<Rightarrow> f x w | Raise e w \<Rightarrow> Raise e w)"

subsection \<open>\<open>_groq_request\<close>\<close>

text \<open>
  The loop \<open>for attempt in range(3)\<close> with \<open>n\<close> attempts left; \<open>r\<close> is the variable
  \<open>r\<close>, unbound before the first attempt.  The request body is a fixed function of the
  user's prompt, which stands for it.
\<close>

fun attempts :: "env \<Rightarrow> ustr \<Rightarrow> nat \<Rightarrow> response option \<Rightarrow> world \<Rightarrow> response res" where
  "attempts en prompt 0 r w =
     (case r of
        Some r' \<Rightarrow> Ok r' w
      | None \<Rightarrow> Raise (Failure (u ''cannot access local variable r'')) w)"
| "attempts en prompt (Suc n) r w =
     (let w1 = log_request (PlannerPost prompt) w in
      case planner_post en w prompt of
        Inl e \<Rightarrow> Raise e w1
      | Inr r' \<Rightarrow>
          if status_code r' = 429 then attempts en prompt n (Some r') (log_request (Sleep 5) w1)
          else (case raise_for_status r' of
                  Some e \<Rightarrow> Raise e w1
                | None \<Rightarrow> Ok r' w1))"

text \<open>\<open>parsed.get("steps", parsed) if isinstance(parsed, dict) else parsed\<close>.\<close>

fun steps_of :: "json \<Rightarrow> json" where
  "steps_of (JObj kvs) = (case map_of kvs (u ''steps'') of Some v \<Rightarrow> v | None \<Rightarrow> JObj kvs)"
| "steps_of parsed = parsed"

definition parse_plan :: "env \<Rightarrow> response \<Rightarrow> exn + json" where
  "parse_plan en r =
     (case completion_content r of
        Inl e \<Rightarrow> Inl e
      | Inr (JStr result) \<Rightarrow>
          (case json_loads en result of
             Inl e \<Rightarrow> Inl e
           | Inr parsed \<Rightarrow> Inr (steps_of parsed))
      | Inr v \<Rightarrow> Inl (TypeError v))"

definition groq_request :: "env \<Rightarrow> ustr \<Rightarrow> world \<Rightarrow> json res" where
  "groq_request en user_prompt w =
     (if \<not> groq_api_key en then Raise (Failure (u ''Missing GROQ_API_KEY'')) w
      else and_then (attempts en user_prompt 3 None w)
             (\<lambda>r w1. case parse_plan en r of Inl e \<Rightarrow> Raise e w1 | Inr plan \<Rightarrow> Ok plan w1))"

subsection \<open>\<open>_parse_calendar_action\<close>\<close>

text \<open>
  \<open>schedule\s+(?:a\s+)?(.+?)\s+for\<close> with \<open>re.IGNORECASE\<close>.  The times are computed
  from the clock; of the instruction they only use whether it mentions \<open>tomorrow\<close>.
\<close>

definition calendar_re :: regex where
  "calendar_re =
     seq [iword ''schedule'', rep1 Space, Opt (Cat (Chr (LitI 97)) (rep1 Space)),
          Grp 1 (Rep Dot 1 None False), rep1 Space, iword ''for'']"

definition parse_calendar_action :: "env \<Rightarrow> ustr \<Rightarrow> ustr \<times> bool" where
  "parse_calendar_action en action =
     (let title = (case re_search (unicode_digit en) calendar_re action of
                     Some m \<Rightarrow> strip (m_group m 1)
                   | None \<Rightarrow> u ''Meeting'')
      in (title, contains (u ''tomorrow'') (str_lower en action)))"

subsection \<open>\<open>_execute_step\<close>\<close>

text \<open>\<open>knowledge:\s*['\"](.+?)['\"]\s*in\s+([^\s]+)\<close> with \<open>re.IGNORECASE\<close>.\<close>

definition knowledge_re :: regex where
  "knowledge_re =
     seq [iword ''knowledge:'', rep0 Space, Chr quote, Grp 1 (Rep Dot 1 None False), Chr quote,
          rep0 Space, iword ''in'', rep1 Space, Grp 2 (rep1 (NoneOf [Space]))]"

text \<open>\<open>re.sub(r'[^a-zA-Z0-9]', '_', action[:20])\<close>.\<close>

definition auto_filename :: "ustr \<Rightarrow> ustr" where
  "auto_filename action = map (\<lambda>c. if is_alnum c then c else 95) (take 20 action)"

definition auto_saved :: "ustr \<Rightarrow> ustr" where
  "auto_saved action = u ''Auto-saved results for '' @ [39] @ action @ [39] @ u '' to knowledge base.''"

text \<open>
  The branches of the \<open>if\<close> chain for an action that is a \<open>str\<close>: the knowledge
  branch, the search branch with its automatic save, and the calendar branch.
\<close>

definition knowledge_step :: "env \<Rightarrow> ustr \<Rightarrow> world \<Rightarrow> ustr res" where
  "knowledge_step en a w =
     (if contains (u ''add knowledge'') (str_lower en a) then
        (case re_search (unicode_digit en) knowledge_re a of
           Some m \<Rightarrow> add_knowledge en (m_group m 2) (m_group m 1) w
         | None \<Rightarrow> Ok (u ''Parse Error'') w)
      else knowledge_agent_run en a w)"

definition search_step :: "env \<Rightarrow> ustr \<Rightarrow> world \<Rightarrow> ustr res" where
  "search_step en a w =
     and_then (search_agent_run en a w) (\<lambda>msg w1.
     and_then (add_knowledge en (auto_filename a) msg w1) (\<lambda>saved w2.
     and_then (broadcast en (Log (JStr (u ''KnowledgeAgent'')) (auto_saved a) Info) w2)
       (\<lambda>_ w3. Ok msg w3)))"

definition calendar_step :: "env \<Rightarrow> ustr \<Rightarrow> world \<Rightarrow> ustr res" where
  "calendar_step en a w =
     (let (title, tomorrow) = parse_calendar_action en a;
          w1 = log_request (CalendarRun title tomorrow) w
      in case calendar_run en w title tomorrow of
           Inl e \<Rightarrow> Raise e w1
         | Inr created \<Rightarrow> Ok (u ''Event: '' @ created) w1)"

text \<open>
  The \<open>if\<close> chain.  The agent and the action are whatever the plan holds under the two
  keys; a branch that treats an action which is not a \<open>str\<close> as one raises:
  \<open>action.lower()\<close> an \<open>AttributeError\<close>, the functions of \<open>re\<close> a \<open>TypeError\<close>.
\<close>

definition dispatch :: "env \<Rightarrow> json \<Rightarrow> json \<Rightarrow> world \<Rightarrow> ustr res" where
  "dispatch en agent action w =
     (if agent = JStr (u ''KnowledgeAgent'') then
        (case action of JStr a \<Rightarrow> knowledge_step en a w | v \<Rightarrow> Raise (AttributeError v) w)
      else if agent = JStr (u ''SearchAgent'') then
        (case action of JStr a \<Rightarrow> search_step en a w | v \<Rightarrow> Raise (TypeError v) w)
      else if agent = JStr (u ''SlackAgent'') then
        (case action of JStr a \<Rightarrow> slack_execute en a w | v \<Rightarrow> Raise (TypeError v) w)
      else if agent = JStr (u ''CommunicationAgent'') then
        (case action of JStr a \<Rightarrow> communication_run en a w | v \<Rightarrow> Raise (TypeError v) w)
      else if agent = JStr (u ''CalendarAgent'') then
        (case action of JStr a \<Rightarrow> calendar_step en a w | v \<Rightarrow> Raise (TypeError v) w)
      else Ok (u ''Task completed by '' @ (case agent of JStr a \<Rightarrow> a | v \<Rightarrow> py_str en v)) w)"

text \<open>The body of the \<open>try\<close>.\<close>

definition step_body :: "env \<Rightarrow> json \<Rightarrow> json \<Rightarrow> world \<Rightarrow> ustr res" where
  "step_body en agent action w =
     and_then (dispatch en agent action w) (\<lambda>msg w1.
     and_then (broadcast en (StatusUpdate action Completed) w1) (\<lambda>_ w2.
     and_then (broadcast en (Log agent msg Info) w2) (\<lambda>_ w3. Ok msg w3)))"

definition record_call :: "json \<Rightarrow> json \<Rightarrow> ustr \<Rightarrow> world \<Rightarrow> world" where
  "record_call agent action result w = w\<lparr>calls := calls w @ [(agent, action, result)]\<rparr>"

definition execute_step :: "env \<Rightarrow> json \<Rightarrow> json \<Rightarrow> world \<Rightarrow> ustr res" where
  "execute_step en agent action w =
     and_then (broadcast en (StatusUpdate action InProgress) w) (\<lambda>_ w1.
       case step_body en agent action w1 of
         Ok msg w2 \<Rightarrow> Ok msg (record_call agent action msg w2)
       | Raise e w2 \<Rightarrow>
           and_then (broadcast en (Log agent (u ''Error: '' @ exn_str en e) Error) w2)
             (\<lambda>_ w3. Ok (u ''Error: '' @ exn_str en e)
                        (record_call agent action (u ''Error: '' @ exn_str en e) w3)))"

subsection \<open>\<open>execute_plan\<close>\<close>

definition context_consuming :: "json \<Rightarrow> bool" where
  "context_consuming agent_name \<longleftrightarrow>
     agent_name = JStr (u ''CommunicationAgent'') \<or> agent_name = JStr (u ''SlackAgent'')"

text \<open>\<open>f"{action}. Info: {context}"\<close>.\<close>

definition with_info :: "env \<Rightarrow> json \<Rightarrow> ustr \<Rightarrow> json" where
  "with_info en action ctx =
     JStr ((case action of JStr a \<Rightarrow> a | v \<Rightarrow> py_str en v) @ u ''. Info: '' @ ctx)"

text \<open>The action handed to \<open>_execute_step\<close> when the context is \<open>ctx\<close>.\<close>

definition injected :: "env \<Rightarrow> ustr \<Rightarrow> json \<Rightarrow> json \<Rightarrow> json" where
  "injected en ctx agent_name action =
     (if ctx \<noteq> [] \<and> context_consuming agent_name then with_info en action ctx else action)"

text \<open>The loop \<open>for step in self.plan\<close>, \<open>ctx\<close> being the variable \<open>context\<close>.\<close>

fun run_steps :: "env \<Rightarrow> ustr \<Rightarrow> json list \<Rightarrow> world \<Rightarrow> unit res" where
  "run_steps en ctx [] w = Ok () w"
| "run_steps en ctx (step # rest) w =
     (case getitem step (u ''agent'') of
        Inl e \<Rightarrow> Raise e w
      | Inr agent_name \<Rightarrow>
          (case getitem step (u ''action'') of
             Inl e \<Rightarrow> Raise e w
           | Inr action \<Rightarrow>
               and_then (execute_step en agent_name (injected en ctx agent_name action) w)
                 (\<lambda>result w1. run_steps en result rest w1)))"

text \<open>\<open>if not isinstance(self.plan, list): self.plan = [self.plan]\<close>.\<close>

fun as_list :: "json \<Rightarrow> json list" where
  "as_list (JList steps) = steps"
| "as_list plan = [plan]"

definition planning :: "env \<Rightarrow> ustr \<Rightarrow> world \<Rightarrow> json list res" where
  "planning en prompt w =
     and_then
       (broadcast en (Log (JStr (u ''PlannerAgent'')) (u ''Groq is planning...'') Info) w)
       (\<lambda>_ w1. and_then (groq_request en prompt w1) (\<lambda>plan w2. Ok (as_list plan) w2))"

definition execute_plan :: "env \<Rightarrow> ustr \<Rightarrow> world \<Rightarrow> unit res" where
  "execute_plan en prompt w =
     (case planning en prompt w of
        Raise e w1 \<Rightarrow>
          broadcast en (Log (JStr (u ''System'')) (u ''Planning failed: '' @ exn_str en e) Error) w1
      | Ok plan w1 \<Rightarrow>
          and_then (broadcast en (PlanEvent plan) w1) (\<lambda>_ w2.
          and_then (run_steps en [] plan w2) (\<lambda>_ w3.
          broadcast en (Log (JStr (u ''System'')) (u ''All tasks done!'') Success) w3)))"

section \<open>Notions used to state the properties\<close>

text \<open>An event sink that takes every event: no \<open>send_text\<close> ever raises.\<close>

definition sink_accepts :: "env \<Rightarrow> bool" where
  "sink_accepts en \<longleftrightarrow> (\<forall>w ev. sink en w ev = None)"

text \<open>A plan step from which \<open>step["agent"]\<close> and \<open>step["action"]\<close> can be read.\<close>

definition step_has :: "json \<Rightarrow> json \<times> json \<Rightarrow> bool" where
  "step_has step p \<longleftrightarrow>
     getitem step (u ''agent'') = Inr (fst p) \<and> getitem step (u ''action'') = Inr (snd p)"

text \<open>
  Context threading as the specification words it: the context is handed to a step by
  appending \<open>. Info: \<close> and the context to its instruction exactly when the context is not
  empty and the capability is the messaging or the notification one, and the outcome of a
  step, of whatever kind, is the context of the next.  Given the steps and their outcomes
  \<open>rs\<close>, these are the invocations to expect.
\<close>

fun threaded :: "env \<Rightarrow> ustr \<Rightarrow> (json \<times> json) list \<Rightarrow> ustr list \<Rightarrow> (json \<times> json \<times> ustr) list" where
  "threaded en ctx ((agent, action) # ps) (r # rs) =
     (agent,
      (if ctx \<noteq> [] \<and> (agent = JStr (u ''SlackAgent'') \<or> agent = JStr (u ''CommunicationAgent''))
       then JStr ((case action of JStr a \<Rightarrow> a | v \<Rightarrow> py_str en v) @ u ''. Info: '' @ ctx)
       else action),
      r) # threaded en r ps rs"
| "threaded en ctx ps rs = []"

text \<open>The log of the automatic save, which only a search step with a \<open>str\<close> action has.\<close>

definition auto_save_log :: "json \<Rightarrow> json \<Rightarrow> event list" where
  "auto_save_log agent action =
     (if agent = JStr (u ''SearchAgent'') then
        (case action of
           JStr a \<Rightarrow> [Log (JStr (u ''KnowledgeAgent'')) (auto_saved a) Info]
         | v \<Rightarrow> [])
      else [])"

subsection \<open>A concrete setting\<close>

text \<open>
  Services for the examples: the planner answers with a two-step plan, the calendar
  service refuses its credentials, everything else works.
\<close>

definition dq :: "string \<Rightarrow> ustr" where
  "dq s = [34] @ u s @ [34]"

definition step_json :: "string \<Rightarrow> string \<Rightarrow> json" where
  "step_json agent action = JObj [(u ''agent'', JStr (u agent)), (u ''action'', JStr (u action))]"

definition step_text :: "string \<Rightarrow> string \<Rightarrow> ustr" where
  "step_text agent action =
     u ''{'' @ dq ''agent'' @ u '': '' @ dq agent @ u '', '' @ dq ''action'' @ u '': '' @ dq action @ u ''}''"

definition plan_text :: ustr where
  "plan_text =
     u ''{'' @ dq ''steps'' @ u '': ['' @ step_text ''CalendarAgent'' ''Schedule sync for tomorrow''
       @ u '', '' @ step_text ''SlackAgent'' ''Post 'done' to #ops'' @ u '']}''"

definition plan_steps :: "json list" where
  "plan_steps =
     [step_json ''CalendarAgent'' ''Schedule sync for tomorrow'',
      step_json ''SlackAgent'' ''Post 'done' to #ops'']"

definition demo_loads :: "ustr \<Rightarrow> exn + json" where
  "demo_loads t =
     (if t = plan_text then Inr (JObj [(u ''steps'', JList plan_steps)])
      else if t = u ''5'' then Inr (JNum 5)
      else Inl (Failure (u ''Expecting value'')))"

text \<open>The body of a chat completion whose message is \<open>content\<close>.\<close>

definition completion :: "ustr \<Rightarrow> json" where
  "completion content =
     JObj [(u ''choices'', JList [JObj [(u ''message'', JObj [(u ''content'', JStr content)])]])]"

definition ascii_lower :: "ustr \<Rightarrow> ustr" where
  "ascii_lower s = map (\<lambda>c. if 65 \<le> c \<and> c \<le> 90 then c + 32 else c) s"

definition demo_env :: env where
  "demo_env =
     \<lparr>sink = (\<lambda>w ev. None),
      groq_api_key = True,
      planner_post = (\<lambda>w p. Inr \<lparr>status_code = 200, json_body = Inr (completion plan_text)\<rparr>),
      json_loads = demo_loads,
      knowledge_post = (\<lambda>w p. Inl (Failure (u ''connection refused''))),
      read_error = (\<lambda>w n. None),
      open_error = (\<lambda>w n. None),
      write_error = (\<lambda>w n. None),
      ddgs_text = (\<lambda>w q. Inr [(u ''Rome'', u ''pizza al taglio '')]),
      chat_postMessage = (\<lambda>w c t. None),
      twilio_client = True,
      messages_create = (\<lambda>w t b. Inr (u ''SM1'')),
      calendar_run = (\<lambda>w t b. Inl (Failure (u ''token expired''))),
      unicode_digit = (\<lambda>c. False),
      str_lower = ascii_lower,
      py_str = (\<lambda>v. []),
      builtin_text = (\<lambda>e. [])\<rparr>"

definition w0 :: world where
  "w0 = \<lparr>published = [], files = [], knowledge = [], requests = [], calls = []\<rparr>"

text \<open>A plan step that has both keys, \<open>agent\<close> and \<open>action\<close>.\<close>

definition readable :: "json \<Rightarrow> bool" where
  "readable step \<longleftrightarrow> \<not> isl (getitem step (u ''agent'')) \<and> \<not> isl (getitem step (u ''action''))"

text \<open>The same services with every connection closed: each \<open>send_text\<close> raises.\<close>

definition closed_env :: env where
  "closed_env = demo_env\<lparr>sink := (\<lambda>w ev. Some (Failure (u ''socket closed'')))\<rparr>"

text \<open>The same services with a planner whose completion is the JSON text \<open>5\<close>.\<close>

definition five_env :: env where
  "five_env =
     demo_env\<lparr>planner_post := (\<lambda>w p. Inr \<lparr>status_code = 200, json_body = Inr (completion (u ''5''))\<rparr>)\<rparr>"

text \<open>
  The same services behind a gateway that answers every planner call with the status 429,
  once with the completion in the body and once with an error body.
\<close>

definition limited_env :: env where
  "limited_env =
     demo_env\<lparr>planner_post := (\<lambda>w p. Inr \<lparr>status_code = 429, json_body = Inr (completion plan_text)\<rparr>)\<rparr>"

definition refused_env :: env where
  "refused_env =
     demo_env\<lparr>planner_post :=
       (\<lambda>w p. Inr \<lparr>status_code = 429,
                     json_body = Inr (JObj [(u ''error'', JStr (u ''rate limit reached''))])\<rparr>)\<rparr>"


text \<open>
  The same services with a full disk: a file can be opened for writing, and nothing that is
  written reaches it.
\<close>

definition full_disk_env :: env where
  "full_disk_env =
     demo_env\<lparr>write_error := (\<lambda>w n. Some (Failure (u ''No space left on device''), 0))\<rparr>"

text \<open>The same services with a sink that takes every event but the logs at error level.\<close>

definition picky_env :: env where
  "picky_env =
     demo_env\<lparr>sink := (\<lambda>w ev. case ev of
                              Log agent message l \<Rightarrow>
                                if l = Error then Some (Failure (u ''socket closed'')) else None
                            | PlanEvent steps \<Rightarrow> None
                            | StatusUpdate action st \<Rightarrow> None)\<rparr>"

subsection \<open>The shape of a Slack instruction\<close>






section \<open>Properties\<close>

subsection \<open>What each part leaves untouched\<close>

lemma dec_simps [simp]: "dec None = None" "dec (Some n) = Some (n - 1)"
  by (simp_all add: dec_def)

lemma broadcast_accepts:
  "sink_accepts en \<Longrightarrow> broadcast en ev w = Ok () (w\<lparr>published := published w @ [ev]\<rparr>)"
  by (simp add: broadcast_def sink_accepts_def)

lemma broadcast_calls: "calls (world_of (broadcast en ev w)) = calls w"
  by (simp add: broadcast_def split: option.splits)

lemma add_knowledge_frame:
  "returned (add_knowledge en f c w)"
  "published (world_of (add_knowledge en f c w)) = published w"
  "calls (world_of (add_knowledge en f c w)) = calls w"
  "requests (world_of (add_knowledge en f c w)) = requests w"
  by (simp_all add: add_knowledge_def Let_def split: option.splits prod.splits)

lemma knowledge_agent_run_frame:
  "returned (knowledge_agent_run en q w)"
  "published (world_of (knowledge_agent_run en q w)) = published w"
  "calls (world_of (knowledge_agent_run en q w)) = calls w"
  "files (world_of (knowledge_agent_run en q w)) = files w"
  by (simp_all add: knowledge_agent_run_def Let_def log_request_def split: sum.splits)

lemma search_agent_run_frame:
  "returned (search_agent_run en q w)"
  "published (world_of (search_agent_run en q w)) = published w"
  "calls (world_of (search_agent_run en q w)) = calls w"
  "files (world_of (search_agent_run en q w)) = files w"
  by (simp_all add: search_agent_run_def Let_def log_request_def split: sum.splits list.splits)

lemma slack_execute_frame:
  "returned (slack_execute en a w)"
  "published (world_of (slack_execute en a w)) = published w"
  "calls (world_of (slack_execute en a w)) = calls w"
  "files (world_of (slack_execute en a w)) = files w"
  by (simp_all add: slack_execute_def Let_def log_request_def split: option.splits)

lemma communication_run_frame:
  "published (world_of (communication_run en a w)) = published w"
  "calls (world_of (communication_run en a w)) = calls w"
  "files (world_of (communication_run en a w)) = files w"
  by (simp_all add: communication_run_def Let_def log_request_def split: option.splits sum.splits)

lemma knowledge_step_frame:
  "returned (knowledge_step en a w)"
  "published (world_of (knowledge_step en a w)) = published w"
  "calls (world_of (knowledge_step en a w)) = calls w"
  by (simp_all add: knowledge_step_def add_knowledge_frame knowledge_agent_run_frame split: option.splits)

lemma calendar_step_frame:
  "published (world_of (calendar_step en a w)) = published w"
  "calls (world_of (calendar_step en a w)) = calls w"
  "files (world_of (calendar_step en a w)) = files w"
  by (simp_all add: calendar_step_def Let_def log_request_def split: option.splits sum.splits prod.splits)

lemma and_then_Ok: "r = Ok x w \<Longrightarrow> and_then r f = f x w"
  by (simp add: and_then_def)

lemma returned_cases: "returned r \<Longrightarrow> r = Ok (case r of Ok x w \<Rightarrow> x) (world_of r)"
  by (cases r) simp_all

lemma search_step_calls: "calls (world_of (search_step en a w)) = calls w"
proof -
  obtain msg w1 where 1: "search_agent_run en a w = Ok msg w1"
    using search_agent_run_frame(1)[of en a w] by (cases "search_agent_run en a w") simp_all
  obtain sv w2 where 2: "add_knowledge en (auto_filename a) msg w1 = Ok sv w2"
    using add_knowledge_frame(1)[of en "auto_filename a" msg w1]
    by (cases "add_knowledge en (auto_filename a) msg w1") simp_all
  have "calls w1 = calls w" using search_agent_run_frame(3)[of en a w] 1 by simp
  moreover have "calls w2 = calls w1" using add_knowledge_frame(3)[of en "auto_filename a" msg w1] 2 by simp
  ultimately show ?thesis using 1 2
    by (simp add: search_step_def and_then_def broadcast_def split: option.splits)
qed

lemma dispatch_calls: "calls (world_of (dispatch en agent action w)) = calls w"
  by (simp add: dispatch_def search_step_calls communication_run_frame calendar_step_frame
      knowledge_step_frame slack_execute_frame split: json.splits)

lemma and_then_calls:
  assumes "calls (world_of r) = c" and "\<And>x w'. calls w' = c \<Longrightarrow> calls (world_of (f x w')) = c"
  shows "calls (world_of (and_then r f)) = c"
  using assms by (cases r) (simp_all add: and_then_def)

lemma step_body_calls: "calls (world_of (step_body en agent action w)) = calls w"
  unfolding step_body_def
  by (intro and_then_calls) (simp_all add: dispatch_calls broadcast_calls)

lemma execute_step_calls:
  "calls (world_of (execute_step en agent action w)) =
     (case execute_step en agent action w of
        Ok result w' \<Rightarrow> calls w @ [(agent, action, result)]
      | Raise e w' \<Rightarrow> calls w)"
proof (cases "sink en w (StatusUpdate action InProgress)")
  case (Some e)
  then show ?thesis by (simp add: execute_step_def and_then_def broadcast_def)
next
  case None
  let ?w1 = "w\<lparr>published := published w @ [StatusUpdate action InProgress]\<rparr>"
  have c: "calls (world_of (step_body en agent action ?w1)) = calls w"
    by (simp add: step_body_calls)
  show ?thesis
  proof (cases "step_body en agent action ?w1")
    case (Ok msg w2)
    with None c show ?thesis
      by (simp add: execute_step_def and_then_def broadcast_def record_call_def)
  next
    case (Raise e w2)
    with None c show ?thesis
      by (simp add: execute_step_def and_then_def broadcast_def record_call_def split: option.splits)
  qed
qed

lemma run_steps_calls:
  "list_all2 step_has plan pairs \<Longrightarrow>
   (\<exists>cs. calls (world_of (run_steps en ctx plan w)) = calls w @ cs
        \<and> cs = threaded en ctx pairs (map (\<lambda>c. snd (snd c)) cs)
        \<and> (if returned (run_steps en ctx plan w) then length cs = length plan else length cs < length plan))"
proof (induction plan arbitrary: ctx w pairs)
  case Nil
  then show ?case by simp
next
  case (Cons step rest)
  from Cons.prems obtain q pairs' where q: "pairs = q # pairs'" "step_has step q"
    "list_all2 step_has rest pairs'"
    by (auto simp: list_all2_Cons1)
  obtain agent action where qa: "q = (agent, action)" by (cases q)
  have p: "pairs = (agent, action) # pairs'"
    "getitem step (u ''agent'') = Inr agent" "getitem step (u ''action'') = Inr action"
    "list_all2 step_has rest pairs'"
    using q qa by (simp_all add: step_has_def)
  let ?a = "injected en ctx agent action"
  show ?case
  proof (cases "execute_step en agent ?a w")
    case (Raise e w')
    then have "calls w' = calls w" using execute_step_calls[of en agent ?a w] by simp
    with Raise p show ?thesis by (simp add: and_then_def)
  next
    case (Ok result w1)
    then have c1: "calls w1 = calls w @ [(agent, ?a, result)]"
      using execute_step_calls[of en agent ?a w] by simp
    from Cons.IH[OF p(4), of result w1] obtain cs where
      cs: "calls (world_of (run_steps en result rest w1)) = calls w1 @ cs"
          "cs = threaded en result pairs' (map (\<lambda>c. snd (snd c)) cs)"
          "if returned (run_steps en result rest w1) then length cs = length rest else length cs < length rest"
      by blast
    have r: "run_steps en ctx (step # rest) w = run_steps en result rest w1"
      using Ok p by (simp add: and_then_def)
    show ?thesis
      apply (rule exI[of _ "(agent, ?a, result) # cs"])
      using cs c1 p(1) unfolding r
      by (auto simp: injected_def context_consuming_def with_info_def split: if_splits)
  qed
qed

lemma res_cases: obtains x w where "r = Ok x w" "returned r" | e w where "r = Raise e w" "\<not> returned r"
  by (cases r) simp_all

lemma search_step_published:
  assumes "sink_accepts en"
  shows "returned (search_step en a w)"
    and "published (world_of (search_step en a w)) =
          published w @ [Log (JStr (u ''KnowledgeAgent'')) (auto_saved a) Info]"
proof -
  obtain msg w1 where 1: "search_agent_run en a w = Ok msg w1"
    using search_agent_run_frame(1)[of en a w] by (cases "search_agent_run en a w") simp_all
  obtain sv w2 where 2: "add_knowledge en (auto_filename a) msg w1 = Ok sv w2"
    using add_knowledge_frame(1)[of en "auto_filename a" msg w1]
    by (cases "add_knowledge en (auto_filename a) msg w1") simp_all
  have p1: "published w1 = published w" using search_agent_run_frame(2)[of en a w] 1 by simp
  have p2: "published w2 = published w1" using add_knowledge_frame(2)[of en "auto_filename a" msg w1] 2 by simp
  show "returned (search_step en a w)"
    using 1 2 assms by (simp add: search_step_def and_then_def broadcast_accepts)
  show "published (world_of (search_step en a w)) =
          published w @ [Log (JStr (u ''KnowledgeAgent'')) (auto_saved a) Info]"
    using 1 2 p1 p2 assms by (simp add: search_step_def and_then_def broadcast_accepts)
qed

lemma dispatch_published:
  "sink_accepts en \<Longrightarrow>
   published (world_of (dispatch en agent action w)) = published w @ auto_save_log agent action"
  by (simp add: dispatch_def auto_save_log_def search_step_published communication_run_frame
      calendar_step_frame knowledge_step_frame slack_execute_frame u_def split: json.splits)

lemma execute_step_events:
  assumes "sink_accepts en"
  shows "returned (execute_step en agent action w)"
    and "published (world_of (execute_step en agent action w)) =
       published w @ [StatusUpdate action InProgress] @ auto_save_log agent action @
       (case dispatch en agent action (w\<lparr>published := published w @ [StatusUpdate action InProgress]\<rparr>) of
          Ok msg w2 \<Rightarrow> [StatusUpdate action Completed, Log agent msg Info]
        | Raise e w2 \<Rightarrow> [Log agent (u ''Error: '' @ exn_str en e) Error])"
    and "execute_step en agent action w =
       Ok (case dispatch en agent action (w\<lparr>published := published w @ [StatusUpdate action InProgress]\<rparr>) of
            Ok msg w2 \<Rightarrow> msg
          | Raise e w2 \<Rightarrow> u ''Error: '' @ exn_str en e)
          (world_of (execute_step en agent action w))"
proof -
  let ?w1 = "w\<lparr>published := published w @ [StatusUpdate action InProgress]\<rparr>"
  have d: "published (world_of (dispatch en agent action ?w1)) =
             published w @ [StatusUpdate action InProgress] @ auto_save_log agent action"
    using dispatch_published[OF assms, of agent action ?w1] by simp
  have all: "returned (execute_step en agent action w) \<and>
     published (world_of (execute_step en agent action w)) =
       published w @ [StatusUpdate action InProgress] @ auto_save_log agent action @
       (case dispatch en agent action ?w1 of
          Ok msg w2 \<Rightarrow> [StatusUpdate action Completed, Log agent msg Info]
        | Raise e w2 \<Rightarrow> [Log agent (u ''Error: '' @ exn_str en e) Error]) \<and>
     execute_step en agent action w =
       Ok (case dispatch en agent action ?w1 of
            Ok msg w2 \<Rightarrow> msg
          | Raise e w2 \<Rightarrow> u ''Error: '' @ exn_str en e)
          (world_of (execute_step en agent action w))"
  proof (cases "dispatch en agent action ?w1")
    case (Ok msg w2)
    with d assms show ?thesis
      by (simp add: execute_step_def step_body_def and_then_def broadcast_accepts record_call_def)
  next
    case (Raise e w2)
    with d assms show ?thesis
      by (simp add: execute_step_def step_body_def and_then_def broadcast_accepts record_call_def)
  qed
  from all show "returned (execute_step en agent action w)" by blast
  from all show "published (world_of (execute_step en agent action w)) =
       published w @ [StatusUpdate action InProgress] @ auto_save_log agent action @
       (case dispatch en agent action ?w1 of
          Ok msg w2 \<Rightarrow> [StatusUpdate action Completed, Log agent msg Info]
        | Raise e w2 \<Rightarrow> [Log agent (u ''Error: '' @ exn_str en e) Error])" by blast
  from all show "execute_step en agent action w =
       Ok (case dispatch en agent action ?w1 of
            Ok msg w2 \<Rightarrow> msg
          | Raise e w2 \<Rightarrow> u ''Error: '' @ exn_str en e)
          (world_of (execute_step en agent action w))" by blast
qed

lemma run_steps_returned:
  "sink_accepts en \<Longrightarrow> list_all2 step_has plan pairs \<Longrightarrow> returned (run_steps en ctx plan w)"
proof (induction plan arbitrary: ctx w pairs)
  case Nil
  then show ?case by simp
next
  case (Cons step rest)
  from Cons.prems obtain q pairs' where q: "pairs = q # pairs'" "step_has step q"
    "list_all2 step_has rest pairs'"
    by (auto simp: list_all2_Cons1)
  let ?a = "injected en ctx (fst q) (snd q)"
  obtain r w1 where e: "execute_step en (fst q) ?a w = Ok r w1"
    using execute_step_events(1)[OF Cons.prems(1), of "fst q" ?a w]
    by (cases "execute_step en (fst q) ?a w") simp_all
  show ?case
    using q e Cons.IH[OF Cons.prems(1) q(3), of r w1]
    by (simp add: step_has_def and_then_def)
qed

lemma attempts_frame:
  "published (world_of (attempts en p n r w)) = published w \<and>
   calls (world_of (attempts en p n r w)) = calls w"
  by (induction n arbitrary: r w)
     (auto simp: Let_def log_request_def split: option.splits sum.splits)

lemma groq_request_frame:
  "published (world_of (groq_request en p w)) = published w"
  "calls (world_of (groq_request en p w)) = calls w"
proof -
  have "published (world_of (groq_request en p w)) = published w \<and> calls (world_of (groq_request en p w)) = calls w"
    using attempts_frame[of en p 3 None w]
    by (cases "attempts en p 3 None w") (auto simp: groq_request_def and_then_def split: sum.splits)
  then show "published (world_of (groq_request en p w)) = published w"
    "calls (world_of (groq_request en p w)) = calls w" by blast+
qed

subsection \<open>Evaluating the concrete setting\<close>

lemma u_eq [simp]: "u a = u b \<longleftrightarrow> a = b"
  unfolding u_def by (rule inj_map_eq_map) (auto intro!: injI)

lemma u_Nil [simp]: "u a = [] \<longleftrightarrow> a = []" "[] = u a \<longleftrightarrow> a = []"
  by (auto simp: u_def)

lemma u_append: "u a @ u b = u (a @ b)"
  by (simp add: u_def)

lemma demo_fields:
  "sink demo_env = (\<lambda>w ev. None)"
  "groq_api_key demo_env = True"
  "planner_post demo_env = (\<lambda>w p. Inr \<lparr>status_code = 200, json_body = Inr (completion plan_text)\<rparr>)"
  "json_loads demo_env = demo_loads"
  "knowledge_post demo_env = (\<lambda>w p. Inl (Failure (u ''connection refused'')))"
  "read_error demo_env = (\<lambda>w n. None)"
  "open_error demo_env = (\<lambda>w n. None)"
  "write_error demo_env = (\<lambda>w n. None)"
  "ddgs_text demo_env = (\<lambda>w q. Inr [(u ''Rome'', u ''pizza al taglio '')])"
  "chat_postMessage demo_env = (\<lambda>w c t. None)"
  "twilio_client demo_env = True"
  "messages_create demo_env = (\<lambda>w t b. Inr (u ''SM1''))"
  "calendar_run demo_env = (\<lambda>w t b. Inl (Failure (u ''token expired'')))"
  "unicode_digit demo_env = (\<lambda>c. False)"
  "str_lower demo_env = ascii_lower"
  "py_str demo_env = (\<lambda>v. [])"
  "builtin_text demo_env = (\<lambda>e. [])"
  by (simp_all add: demo_env_def)

lemma demo_accepts: "sink_accepts demo_env"
  by (simp add: sink_accepts_def demo_fields)

lemma five_accepts: "sink_accepts five_env"
  by (simp add: sink_accepts_def five_env_def demo_fields)

lemma limited_accepts: "sink_accepts limited_env"
  by (simp add: sink_accepts_def limited_env_def demo_fields)

lemma refused_accepts: "sink_accepts refused_env"
  by (simp add: sink_accepts_def refused_env_def demo_fields)

lemma plan_text_not_5: "u ''5'' \<noteq> plan_text"
  by (simp add: plan_text_def u_def dq_def step_text_def)

lemmas planning_defs =
  planning_def groq_request_def and_then_def numeral_3_eq_3 Let_def log_request_def
  raise_for_status_def parse_plan_def completion_content_def completion_def

lemma demo_planning:
  "planning demo_env p w0 =
     Ok plan_steps
        (w0\<lparr>published := [Log (JStr (u ''PlannerAgent'')) (u ''Groq is planning...'') Info],
            requests := [PlannerPost p]\<rparr>)"
  by (simp add: planning_defs broadcast_accepts demo_accepts demo_fields demo_loads_def w0_def)

lemma five_request:
  "groq_request five_env p w =
     Ok (JNum 5) (w\<lparr>requests := requests w @ [PlannerPost p]\<rparr>)"
  by (simp add: planning_defs five_env_def demo_fields demo_loads_def plan_text_not_5)

lemma limited_request:
  "groq_request limited_env p w =
     Ok (JList plan_steps)
        (w\<lparr>requests := requests w @
              [PlannerPost p, Sleep 5, PlannerPost p, Sleep 5, PlannerPost p, Sleep 5]\<rparr>)"
  by (simp add: planning_defs limited_env_def demo_fields demo_loads_def)

lemma refused_request:
  "groq_request refused_env p w =
     Raise (KeyError (u ''choices''))
        (w\<lparr>requests := requests w @
              [PlannerPost p, Sleep 5, PlannerPost p, Sleep 5, PlannerPost p, Sleep 5]\<rparr>)"
  by (simp add: planning_defs refused_env_def demo_fields)

text \<open>A step, once the sink takes every event, by what its dispatch does.\<close>

lemma execute_step_eval:
  "sink_accepts en \<Longrightarrow>
   execute_step en agent action w =
     (case dispatch en agent action (w\<lparr>published := published w @ [StatusUpdate action InProgress]\<rparr>) of
        Ok msg w2 \<Rightarrow>
          Ok msg (record_call agent action msg
                    (w2\<lparr>published := published w2 @ [StatusUpdate action Completed, Log agent msg Info]\<rparr>))
      | Raise e w2 \<Rightarrow>
          Ok (u ''Error: '' @ exn_str en e)
             (record_call agent action (u ''Error: '' @ exn_str en e)
                (w2\<lparr>published := published w2 @ [Log agent (u ''Error: '' @ exn_str en e) Error]\<rparr>)))"
  by (simp add: execute_step_def step_body_def and_then_def broadcast_accepts split: res.splits)

lemma calendar_refused:
  "calendar_run en = (\<lambda>w t b. Inl e) \<Longrightarrow>
   dispatch en (JStr (u ''CalendarAgent'')) (JStr a) w =
     Raise e (log_request (CalendarRun (fst (parse_calendar_action en a))
                                       (snd (parse_calendar_action en a))) w)"
  by (simp add: dispatch_def calendar_step_def Let_def split: prod.splits)

lemma slack_dispatch:
  "dispatch en (JStr (u ''SlackAgent'')) (JStr a) w = slack_execute en a w"
  by (simp add: dispatch_def)

lemma slack_posts:
  "map_option (\<lambda>m. (m_group m 1, m_group m 2)) (re_search (unicode_digit en) slack_re a)
     = Some (msg, channel) \<Longrightarrow>
   chat_postMessage en w channel msg = None \<Longrightarrow>
   slack_execute en a w =
     Ok (u ''Message successfully posted to '' @ channel)
        (log_request (ChatPostMessage channel msg) w)"
  by (auto simp: slack_execute_def Let_def split: option.splits)

lemmas regex_defs =
  re_search_def iword_def ichr_def u_def is_space_def m_group_def

lemma done_to_ops:
  "map_option (\<lambda>m. (m_group m 1, m_group m 2)) (re_search nd slack_re (u ''Post 'done' to #ops''))
     = Some (u ''done'', u ''#ops'')"
  by (simp add: slack_re_def regex_defs)

lemma done_to_ops_info:
  "map_option (\<lambda>m. (m_group m 1, m_group m 2))
     (re_search nd slack_re (u ''Post 'done' to #ops. Info: Error: token expired''))
     = Some (u ''done'', u ''#ops.'')"
  by (simp add: slack_re_def regex_defs)

lemma calendar_title:
  "parse_calendar_action demo_env (u ''Schedule sync for tomorrow'') = (u ''sync'', True)"
  by (simp add: parse_calendar_action_def demo_fields calendar_re_def regex_defs
      strip_def strip_chars_def ascii_lower_def)

subsection \<open>The plan as a whole\<close>

lemma not_isl_projr: "\<not> isl x \<Longrightarrow> x = Inr (projr x)"
  by (cases x) simp_all

lemma readable_pairs:
  "list_all readable plan \<Longrightarrow>
   list_all2 step_has plan
     (map (\<lambda>s. (projr (getitem s (u ''agent'')), projr (getitem s (u ''action'')))) plan)"
  by (induction plan) (simp_all add: readable_def step_has_def not_isl_projr)

lemma execute_plan_eval:
  "sink_accepts en \<Longrightarrow>
   execute_plan en prompt w =
     (case planning en prompt w of
        Raise e w1 \<Rightarrow>
          Ok () (w1\<lparr>published := published w1 @
                   [Log (JStr (u ''System'')) (u ''Planning failed: '' @ exn_str en e) Error]\<rparr>)
      | Ok plan w1 \<Rightarrow>
          (case run_steps en [] plan (w1\<lparr>published := published w1 @ [PlanEvent plan]\<rparr>) of
             Ok x w3 \<Rightarrow>
               Ok () (w3\<lparr>published := published w3 @
                        [Log (JStr (u ''System'')) (u ''All tasks done!'') Success]\<rparr>)
           | Raise e w3 \<Rightarrow> Raise e w3))"
  by (simp add: execute_plan_def and_then_def broadcast_accepts split: res.splits)

lemma planning_calls: "calls (world_of (planning en p w)) = calls w"
  unfolding planning_def
  by (intro and_then_calls) (simp_all add: broadcast_calls groq_request_frame)

lemma dispatch_raise_no_save:
  assumes "sink_accepts en" and "dispatch en agent action w = Raise e w'"
  shows "auto_save_log agent action = []"
proof (cases "agent = JStr (u ''SearchAgent'') \<and> (\<exists>a. action = JStr a)")
  case True
  then obtain a where a: "agent = JStr (u ''SearchAgent'')" "action = JStr a" by blast
  have "returned (search_step en a w)" using search_step_published(1)[OF assms(1)] .
  moreover have "dispatch en agent action w = search_step en a w"
    using a by (simp add: dispatch_def)
  ultimately have "returned (Raise e w' :: ustr res)" using assms(2) by simp
  then show ?thesis by simp
next
  case False
  then show ?thesis by (auto simp: auto_save_log_def split: json.splits)
qed

text \<open>
  The run of the two-step plan of the concrete setting, for any services whose calendar
  refuses the credentials and whose chat accepts the message.
\<close>

lemma two_step_run:
  assumes "sink_accepts en" and "planning en p w = Ok plan_steps w1"
    and "calendar_run en = (\<lambda>w t b. Inl (Failure (u ''token expired'')))"
    and "chat_postMessage en = (\<lambda>w c t. None)"
  shows "published (world_of (execute_plan en p w)) =
     published w1 @
     [PlanEvent plan_steps,
      StatusUpdate (JStr (u ''Schedule sync for tomorrow'')) InProgress,
      Log (JStr (u ''CalendarAgent'')) (u ''Error: token expired'') Error,
      StatusUpdate (JStr (u ''Post 'done' to #ops. Info: Error: token expired'')) InProgress,
      StatusUpdate (JStr (u ''Post 'done' to #ops. Info: Error: token expired'')) Completed,
      Log (JStr (u ''SlackAgent'')) (u ''Message successfully posted to #ops.'') Info,
      Log (JStr (u ''System'')) (u ''All tasks done!'') Success]"
  by (simp add: execute_plan_eval assms plan_steps_def step_json_def and_then_def
      execute_step_eval calendar_refused[OF assms(3)] slack_dispatch
      slack_posts[OF done_to_ops_info] injected_def context_consuming_def with_info_def
      exn_str_def u_append record_call_def log_request_def)

subsection \<open>The claims\<close>

text \<open>
  C1, as stated, does not hold: two runs of \<open>execute_plan\<close> that raise outward.  With
  every connection closed the first \<open>broadcast\<close> raises inside the \<open>try\<close>, and the
  \<open>broadcast\<close> of the handler raises in turn.  With a planner whose completion is the
  JSON text \<open>5\<close> and a sink that takes every event, the plan is the list holding 5, and
  \<open>step["agent"]\<close>, which no \<open>try\<close> encloses, raises a \<open>TypeError\<close>.
\<close>

theorem execute_plan_raises:
  "execute_plan closed_env (u ''plan my day'') w0 = Raise (Failure (u ''socket closed'')) w0
   \<and> execute_plan five_env (u ''plan my day'') w0 =
       Raise (TypeError (JNum 5))
         (w0\<lparr>published := [Log (JStr (u ''PlannerAgent'')) (u ''Groq is planning...'') Info,
                             PlanEvent [JNum 5]],
             requests := [PlannerPost (u ''plan my day'')]\<rparr>)"
proof
  show "execute_plan closed_env (u ''plan my day'') w0 = Raise (Failure (u ''socket closed'')) w0"
    by (simp add: execute_plan_def planning_def and_then_def broadcast_def closed_env_def)
  have "planning five_env (u ''plan my day'') w0 =
          Ok [JNum 5] (w0\<lparr>published := [Log (JStr (u ''PlannerAgent'')) (u ''Groq is planning...'') Info],
                           requests := [PlannerPost (u ''plan my day'')]\<rparr>)"
    by (simp add: planning_def and_then_def broadcast_accepts five_accepts five_request w0_def)
  then show "execute_plan five_env (u ''plan my day'') w0 =
       Raise (TypeError (JNum 5))
         (w0\<lparr>published := [Log (JStr (u ''PlannerAgent'')) (u ''Groq is planning...'') Info,
                             PlanEvent [JNum 5]],
             requests := [PlannerPost (u ''plan my day'')]\<rparr>)"
    by (simp add: execute_plan_eval five_accepts w0_def)
qed

text \<open>
  C1, amended.  When the event sink takes every event, \<open>execute_plan\<close> turns a failure of
  the planning into the log \<open>Planning failed: ...\<close> at error level, published last, and
  returns; and when the planning yields a plan each of whose steps has the keys \<open>agent\<close>
  and \<open>action\<close>, it returns too, and the last event published is the success log
  \<open>All tasks done!\<close>.
\<close>

theorem execute_plan_ends:
  assumes "sink_accepts en"
  shows "case planning en prompt w of
           Raise e w1 \<Rightarrow>
             execute_plan en prompt w =
               Ok () (w1\<lparr>published := published w1 @
                        [Log (JStr (u ''System'')) (u ''Planning failed: '' @ exn_str en e) Error]\<rparr>)
         | Ok plan w1 \<Rightarrow>
             list_all readable plan \<longrightarrow>
               returned (execute_plan en prompt w) \<and>
               last (published (world_of (execute_plan en prompt w))) =
                 Log (JStr (u ''System'')) (u ''All tasks done!'') Success"
proof (cases "planning en prompt w")
  case (Raise e w1)
  then show ?thesis using assms by (simp add: execute_plan_eval)
next
  case (Ok plan w1)
  have "returned (execute_plan en prompt w) \<and>
        last (published (world_of (execute_plan en prompt w))) =
          Log (JStr (u ''System'')) (u ''All tasks done!'') Success"
    if "list_all readable plan"
  proof -
    let ?w2 = "w1\<lparr>published := published w1 @ [PlanEvent plan]\<rparr>"
    have "returned (run_steps en [] plan ?w2)"
      using run_steps_returned[OF assms readable_pairs[OF that]] .
    then obtain x w3 where "run_steps en [] plan ?w2 = Ok x w3"
      by (cases "run_steps en [] plan ?w2") simp_all
    then show ?thesis using Ok assms by (simp add: execute_plan_eval)
  qed
  then show ?thesis using Ok by simp
qed

theorem execute_plan_ends_witness:
  "returned (execute_plan demo_env (u ''plan my day'') w0) \<and>
   last (published (world_of (execute_plan demo_env (u ''plan my day'') w0))) =
     Log (JStr (u ''System'')) (u ''All tasks done!'') Success"
  using execute_plan_ends[of demo_env "u ''plan my day''" w0]
  by (simp add: demo_accepts demo_planning readable_def plan_steps_def step_json_def)

text \<open>The sink that refuses the logs at error level, in the concrete setting.\<close>

lemma picky_fields:
  "sink picky_env =
     (\<lambda>w ev. case ev of
                Log agent message l \<Rightarrow>
                  if l = Error then Some (Failure (u ''socket closed'')) else None
              | PlanEvent steps \<Rightarrow> None
              | StatusUpdate action st \<Rightarrow> None)"
  "calendar_run picky_env = (\<lambda>w t b. Inl (Failure (u ''token expired'')))"
  by (simp_all add: picky_env_def demo_fields)

lemma picky_planning:
  "planning picky_env p w0 =
     Ok plan_steps
        (w0\<lparr>published := [Log (JStr (u ''PlannerAgent'')) (u ''Groq is planning...'') Info],
            requests := [PlannerPost p]\<rparr>)"
  by (simp add: planning_defs broadcast_def picky_env_def demo_fields demo_loads_def w0_def)

lemma picky_run:
  "execute_plan picky_env p w0 =
     Raise (Failure (u ''socket closed''))
       (log_request
          (CalendarRun (fst (parse_calendar_action picky_env (u ''Schedule sync for tomorrow'')))
                       (snd (parse_calendar_action picky_env (u ''Schedule sync for tomorrow''))))
          (w0\<lparr>published := [Log (JStr (u ''PlannerAgent'')) (u ''Groq is planning...'') Info,
                              PlanEvent plan_steps,
                              StatusUpdate (JStr (u ''Schedule sync for tomorrow'')) InProgress],
              requests := [PlannerPost p]\<rparr>))"
  by (simp add: execute_plan_def picky_planning and_then_def broadcast_def picky_fields(1)
      plan_steps_def step_json_def injected_def execute_step_def step_body_def
      calendar_refused[OF picky_fields(2)] exn_str_def log_request_def)

text \<open>
  C2, as stated, does not hold: the handler of \<open>_execute_step\<close> publishes the error log
  with a \<open>broadcast\<close> that nothing protects, and the loop over the plan has no handler.
  With a sink that refuses the logs at error level, the calendar step of the concrete
  setting, whose capability raises, ends the run: \<open>execute_plan\<close> raises, no invocation
  of \<open>_execute_step\<close> returns, and the Slack step that follows is never started.
\<close>

theorem failed_step_aborts:
  "\<not> returned (execute_plan picky_env (u ''plan my day'') w0)
   \<and> published (world_of (execute_plan picky_env (u ''plan my day'') w0)) =
       [Log (JStr (u ''PlannerAgent'')) (u ''Groq is planning...'') Info,
        PlanEvent plan_steps,
        StatusUpdate (JStr (u ''Schedule sync for tomorrow'')) InProgress]
   \<and> calls (world_of (execute_plan picky_env (u ''plan my day'') w0)) = []"
  unfolding picky_run by (simp add: log_request_def w0_def)

text \<open>
  C2, amended.  Let the event sink take every event, let \<open>step\<close> be a step of a plan with
  the agent and the action \<open>agent\<close> and \<open>action\<close>, followed by the steps \<open>rest\<close> that
  hold the pairs \<open>pairs\<close>, and let the dispatch of \<open>step\<close>, run after its
  \<open>in-progress\<close> status, raise \<open>e\<close>.  Then \<open>_execute_step\<close> returns the text
  \<open>Error: \<close> followed by \<open>str(e)\<close>, having published that text as a log at error
  level and nothing else after the status; and the loop goes on: each of the remaining
  steps is invoked, one invocation per step in the order of the plan, the first of them
  with the error text as its context.
\<close>

theorem failed_step_goes_on:
  assumes "sink_accepts en"
    and "step_has step (agent, action)"
    and "list_all2 step_has rest pairs"
    and "dispatch en agent (injected en ctx agent action)
           (w\<lparr>published := published w @ [StatusUpdate (injected en ctx agent action) InProgress]\<rparr>)
         = Raise e w2"
  shows "\<exists>w' cs.
           execute_step en agent (injected en ctx agent action) w =
             Ok (u ''Error: '' @ exn_str en e) w'
         \<and> published w' =
             published w @ [StatusUpdate (injected en ctx agent action) InProgress,
                            Log agent (u ''Error: '' @ exn_str en e) Error]
         \<and> run_steps en ctx (step # rest) w =
             run_steps en (u ''Error: '' @ exn_str en e) rest w'
         \<and> returned (run_steps en ctx (step # rest) w)
         \<and> calls (world_of (run_steps en ctx (step # rest) w)) =
             calls w @ (agent, injected en ctx agent action, u ''Error: '' @ exn_str en e) # cs
         \<and> length cs = length rest
         \<and> cs = threaded en (u ''Error: '' @ exn_str en e) pairs (map (\<lambda>c. snd (snd c)) cs)"
proof -
  let ?a = "injected en ctx agent action"
  let ?err = "u ''Error: '' @ exn_str en e"
  let ?w1 = "w\<lparr>published := published w @ [StatusUpdate ?a InProgress]\<rparr>"
  let ?w' = "record_call agent ?a ?err (w2\<lparr>published := published w2 @ [Log agent ?err Error]\<rparr>)"
  have p2: "published w2 = published w @ [StatusUpdate ?a InProgress]"
    using dispatch_published[OF assms(1), of agent ?a ?w1]
      dispatch_raise_no_save[OF assms(1) assms(4)] assms(4) by simp
  have c2: "calls w2 = calls w"
    using dispatch_calls[of en agent ?a ?w1] assms(4) by simp
  have s: "execute_step en agent ?a w = Ok ?err ?w'"
    using assms(1) assms(4) by (simp add: execute_step_eval)
  have p: "published ?w' = published w @ [StatusUpdate ?a InProgress, Log agent ?err Error]"
    using p2 by (simp add: record_call_def)
  have c: "calls ?w' = calls w @ [(agent, ?a, ?err)]"
    using c2 by (simp add: record_call_def)
  have r: "run_steps en ctx (step # rest) w = run_steps en ?err rest ?w'"
    using assms(2) s by (simp add: step_has_def and_then_def)
  have ret: "returned (run_steps en ?err rest ?w')"
    using run_steps_returned[OF assms(1) assms(3)] .
  from run_steps_calls[OF assms(3), of en ?err ?w'] ret obtain cs where
    cs: "calls (world_of (run_steps en ?err rest ?w')) = calls ?w' @ cs"
        "cs = threaded en ?err pairs (map (\<lambda>c. snd (snd c)) cs)"
        "length cs = length rest"
    by auto
  have "calls (world_of (run_steps en ctx (step # rest) w)) = calls w @ (agent, ?a, ?err) # cs"
    using r cs(1) c by simp
  then show ?thesis using s p r ret cs(2,3) by metis
qed

theorem failed_step_goes_on_witness:
  "\<exists>w' cs.
     execute_step demo_env (JStr (u ''CalendarAgent'')) (JStr (u ''Schedule sync for tomorrow'')) w0 =
       Ok (u ''Error: token expired'') w'
   \<and> published w' =
       [StatusUpdate (JStr (u ''Schedule sync for tomorrow'')) InProgress,
        Log (JStr (u ''CalendarAgent'')) (u ''Error: token expired'') Error]
   \<and> run_steps demo_env [] plan_steps w0 =
       run_steps demo_env (u ''Error: token expired'') [step_json ''SlackAgent'' ''Post 'done' to #ops''] w'
   \<and> returned (run_steps demo_env [] plan_steps w0)
   \<and> calls (world_of (run_steps demo_env [] plan_steps w0)) =
       (JStr (u ''CalendarAgent''), JStr (u ''Schedule sync for tomorrow''), u ''Error: token expired'') # cs
   \<and> length cs = 1
   \<and> cs = threaded demo_env (u ''Error: token expired'')
            [(JStr (u ''SlackAgent''), JStr (u ''Post 'done' to #ops''))] (map (\<lambda>c. snd (snd c)) cs)"
  using failed_step_goes_on[of demo_env "step_json ''CalendarAgent'' ''Schedule sync for tomorrow''"
      "JStr (u ''CalendarAgent'')" "JStr (u ''Schedule sync for tomorrow'')"
      "[step_json ''SlackAgent'' ''Post 'done' to #ops'']"
      "[(JStr (u ''SlackAgent''), JStr (u ''Post 'done' to #ops''))]"
      "[]" w0
      "Failure (u ''token expired'')"
      "log_request (CalendarRun (u ''sync'') True)
         (w0\<lparr>published := published w0 @ [StatusUpdate (JStr (u ''Schedule sync for tomorrow'')) InProgress]\<rparr>)"]
  by (simp add: demo_accepts step_has_def step_json_def injected_def calendar_refused demo_fields
      calendar_title exn_str_def u_append plan_steps_def w0_def)

text \<open>
  C3, as stated, does not hold: no shape of the parsed JSON raises.  For a completion that
  is the JSON text \<open>5\<close>, \<open>_groq_request\<close> returns the number 5.
\<close>

theorem number_is_a_plan:
  "groq_request five_env (u ''plan my day'') w0 =
     Ok (JNum 5) (w0\<lparr>requests := [PlannerPost (u ''plan my day'')]\<rparr>)"
  by (simp add: five_request w0_def)

text \<open>
  C3, amended.  Let the sink take every event, the key be set, and the planner answer the
  first call with a status below 400 and a chat completion whose text \<open>json.loads\<close>
  parses to \<open>parsed\<close>.  Then the planning raises nothing, whatever the shape of
  \<open>parsed\<close>, and the plan is: a list, as it is; an object with the key \<open>steps\<close>, the
  value under that key, as it is when a list, and the one-element list holding it
  otherwise; an object without the key, the one-element list holding the object; anything
  else, the one-element list holding it.
\<close>

theorem plan_of_any_shape:
  assumes "sink_accepts en" and "groq_api_key en"
    and "planner_post en
           (w\<lparr>published := published w @
                [Log (JStr (u ''PlannerAgent'')) (u ''Groq is planning...'') Info]\<rparr>) prompt = Inr r"
    and "status_code r < 400"
    and "json_body r = Inr (completion text)"
    and "json_loads en text = Inr parsed"
  shows "\<exists>w'. planning en prompt w =
           Ok (case parsed of
                 JList steps \<Rightarrow> steps
               | JObj kvs \<Rightarrow>
                   (case map_of kvs (u ''steps'') of
                      None \<Rightarrow> [parsed]
                    | Some (JList steps) \<Rightarrow> steps
                    | Some v \<Rightarrow> [v])
               | v \<Rightarrow> [v]) w'"
proof -
  let ?w1 = "w\<lparr>published := published w @
                [Log (JStr (u ''PlannerAgent'')) (u ''Groq is planning...'') Info]\<rparr>"
  have "groq_request en prompt ?w1 = Ok (steps_of parsed) (log_request (PlannerPost prompt) ?w1)"
    using assms by (simp add: planning_defs)
  then have "planning en prompt w = Ok (as_list (steps_of parsed)) (log_request (PlannerPost prompt) ?w1)"
    using assms(1) by (simp add: planning_def and_then_def broadcast_accepts)
  moreover have "as_list (steps_of parsed) =
           (case parsed of
                 JList steps \<Rightarrow> steps
               | JObj kvs \<Rightarrow>
                   (case map_of kvs (u ''steps'') of
                      None \<Rightarrow> [parsed]
                    | Some (JList steps) \<Rightarrow> steps
                    | Some v \<Rightarrow> [v])
               | v \<Rightarrow> [v])"
    by (cases parsed) (simp_all split: option.splits json.splits)
  ultimately show ?thesis by simp
qed

theorem plan_of_any_shape_witness:
  "\<exists>w'. planning demo_env (u ''plan my day'') w0 = Ok plan_steps w'"
  using plan_of_any_shape[of demo_env w0 "u ''plan my day''"
      "\<lparr>status_code = 200, json_body = Inr (completion plan_text)\<rparr>" plan_text
      "JObj [(u ''steps'', JList plan_steps)]"]
  by (simp add: demo_accepts demo_fields demo_loads_def)

text \<open>
  C4, as stated, does not hold: a step whose dispatch raises gets no \<open>completed\<close> status.
  The calendar step of the concrete setting, whose credentials are refused, publishes its
  \<open>in-progress\<close> status and the error log, and nothing else.
\<close>

theorem failed_step_not_completed:
  "published (world_of (execute_step demo_env (JStr (u ''CalendarAgent''))
                          (JStr (u ''Schedule sync for tomorrow'')) w0)) =
     [StatusUpdate (JStr (u ''Schedule sync for tomorrow'')) InProgress,
      Log (JStr (u ''CalendarAgent'')) (u ''Error: token expired'') Error]"
  by (simp add: execute_step_eval demo_accepts calendar_refused demo_fields exn_str_def u_append
      record_call_def log_request_def w0_def)

text \<open>
  C4, amended.  When the event sink takes every event, a step publishes its
  \<open>in-progress\<close> status first.  If the dispatch then returns \<open>msg\<close>, the step publishes
  the log of the automatic save when it is a search, the \<open>completed\<close> status, and
  \<open>msg\<close> as a log at info level.  If the dispatch raises \<open>e\<close>, the step publishes one
  more event only, the log \<open>Error: \<close> followed by \<open>str(e)\<close> at error level: no
  \<open>completed\<close> status.
\<close>

theorem step_events:
  assumes "sink_accepts en"
  shows "published (world_of (execute_step en agent action w)) =
           published w @ [StatusUpdate action InProgress] @
           (case dispatch en agent action
                   (w\<lparr>published := published w @ [StatusUpdate action InProgress]\<rparr>) of
              Ok msg w2 \<Rightarrow>
                auto_save_log agent action @ [StatusUpdate action Completed, Log agent msg Info]
            | Raise e w2 \<Rightarrow> [Log agent (u ''Error: '' @ exn_str en e) Error])"
proof (cases "dispatch en agent action (w\<lparr>published := published w @ [StatusUpdate action InProgress]\<rparr>)")
  case (Ok msg w2)
  then show ?thesis using execute_step_events(2)[OF assms, of agent action w] by simp
next
  case (Raise e w2)
  then show ?thesis
    using execute_step_events(2)[OF assms, of agent action w]
      dispatch_raise_no_save[OF assms Raise] by simp
qed

theorem step_events_witness:
  "published (world_of (execute_step demo_env (JStr (u ''SlackAgent''))
                          (JStr (u ''Post 'done' to #ops'')) w0)) =
     [StatusUpdate (JStr (u ''Post 'done' to #ops'')) InProgress,
      StatusUpdate (JStr (u ''Post 'done' to #ops'')) Completed,
      Log (JStr (u ''SlackAgent'')) (u ''Message successfully posted to #ops'') Info]"
  using step_events[of demo_env "JStr (u ''SlackAgent'')" "JStr (u ''Post 'done' to #ops'')" w0]
  by (simp add: demo_accepts slack_dispatch slack_posts[OF done_to_ops] demo_fields
      auto_save_log_def u_append w0_def)

text \<open>
  C5.  Let the planning yield a plan whose steps hold the pairs of agent and action
  \<open>pairs\<close>.  Then the invocations of \<open>_execute_step\<close> made by \<open>execute_plan\<close> are the
  ones context threading prescribes, starting from the empty context, for the outcomes
  these invocations returned: \<open>. Info: \<close> and the context are appended to the action
  exactly when the context is not empty and the agent is the Slack or the communication
  one, and the context of a step is the outcome of the step before it, an
  \<open>Error: ...\<close> text like any other.  When \<open>execute_plan\<close> returns, every step of the
  plan has been invoked.
\<close>

theorem context_threading:
  assumes "planning en prompt w = Ok plan w1" and "list_all2 step_has plan pairs"
  shows "\<exists>cs. calls (world_of (execute_plan en prompt w)) = calls w @ cs
             \<and> cs = threaded en [] pairs (map (\<lambda>c. snd (snd c)) cs)
             \<and> (returned (execute_plan en prompt w) \<longrightarrow> length cs = length plan)"
proof -
  have c1: "calls w1 = calls w" using planning_calls[of en prompt w] assms(1) by simp
  show ?thesis
  proof (cases "broadcast en (PlanEvent plan) w1")
    case (Raise e w2)
    then have "calls w2 = calls w1" using broadcast_calls[of en "PlanEvent plan" w1] by simp
    then show ?thesis using assms(1) Raise c1 by (simp add: execute_plan_def and_then_def)
  next
    case (Ok x w2)
    then have c2: "calls w2 = calls w" using broadcast_calls[of en "PlanEvent plan" w1] c1 by simp
    from run_steps_calls[OF assms(2), of en "[]" w2] obtain cs where
      cs: "calls (world_of (run_steps en [] plan w2)) = calls w2 @ cs"
          "cs = threaded en [] pairs (map (\<lambda>c. snd (snd c)) cs)"
          "if returned (run_steps en [] plan w2) then length cs = length plan
           else length cs < length plan"
      by blast
    show ?thesis
    proof (cases "run_steps en [] plan w2")
      case (Raise e w3)
      then have "calls (world_of (execute_plan en prompt w)) = calls w @ cs"
        "\<not> returned (execute_plan en prompt w)"
        using assms(1) Ok cs(1) c2 by (simp_all add: execute_plan_def and_then_def)
      then show ?thesis using cs(2) by blast
    next
      case ok: (Ok y w3)
      let ?b = "broadcast en (Log (JStr (u ''System'')) (u ''All tasks done!'') Success) w3"
      have "execute_plan en prompt w = ?b"
        using assms(1) Ok ok by (simp add: execute_plan_def and_then_def)
      moreover have "calls (world_of ?b) = calls w @ cs"
        using broadcast_calls[of en _ w3] cs(1) ok c2 by simp
      moreover have "length cs = length plan" using cs(3) ok by simp
      ultimately show ?thesis using cs(2) by auto
    qed
  qed
qed

theorem context_threading_witness:
  "\<exists>cs. calls (world_of (execute_plan demo_env (u ''plan my day'') w0)) = cs
       \<and> cs = threaded demo_env []
                [(JStr (u ''CalendarAgent''), JStr (u ''Schedule sync for tomorrow'')),
                 (JStr (u ''SlackAgent''), JStr (u ''Post 'done' to #ops''))]
                (map (\<lambda>c. snd (snd c)) cs)"
  using context_threading[OF demo_planning,
      of "[(JStr (u ''CalendarAgent''), JStr (u ''Schedule sync for tomorrow'')),
           (JStr (u ''SlackAgent''), JStr (u ''Post 'done' to #ops''))]" "u ''plan my day''"]
  by (auto simp: plan_steps_def step_json_def step_has_def w0_def)

text \<open>Facts about the automatic save.\<close>

lemma safe_auto_filename: "safe_name (auto_filename a) = auto_filename a"
  by (simp add: safe_name_def auto_filename_def)

lemma map_of_write_file:
  "map_of (write_file n c fs) k = (if k = n then Some c else map_of fs k)"
  by (induction fs) auto

lemma search_dispatch:
  "dispatch en (JStr (u ''SearchAgent'')) (JStr a) w = search_step en a w"
  by (simp add: dispatch_def)

text \<open>
  C6, as stated, does not hold.  In the concrete setting the search answers
  \<open>Rome: pizza al taglio\<close> followed by a blank, and the file written holds the text
  without the blank: the content is the outcome stripped.  And on a full disk the record
  is created empty, while the log of the save is published all the same.
\<close>

theorem auto_save_differs:
  "(\<exists>w'. dispatch demo_env (JStr (u ''SearchAgent'')) (JStr (u ''pizza in Rome'')) w0 =
           Ok (u ''Rome: pizza al taglio '') w'
         \<and> files w' = [(u ''pizza_in_Rome.txt'', u ''Rome: pizza al taglio'')])
   \<and> (\<exists>w'. dispatch full_disk_env (JStr (u ''SearchAgent'')) (JStr (u ''pizza in Rome'')) w0 =
           Ok (u ''Rome: pizza al taglio '') w'
         \<and> files w' = [(u ''pizza_in_Rome.txt'', [])]
         \<and> published w' =
             [Log (JStr (u ''KnowledgeAgent''))
                (u ''Auto-saved results for '' @ [39] @ u ''pizza in Rome'' @ [39] @ u '' to knowledge base.'')
                Info])"
  unfolding search_dispatch
  by (simp add: search_step_def search_agent_run_def add_knowledge_def and_then_def
      broadcast_def full_disk_env_def demo_fields Let_def log_request_def safe_name_def
      auto_filename_def is_alnum_def strip_def strip_chars_def is_space_def auto_saved_def
      w0_def u_def)

text \<open>
  C6, amended.  A Search step whose instruction is not a \<open>str\<close> raises a
  \<open>TypeError\<close> in the search itself: nothing is saved and no log of a save is published.
  When the event sink takes every event, a Search step with the \<open>str\<close> instruction
  \<open>a\<close> returns the outcome \<open>msg\<close> of the search and publishes one info log noting the
  save.  The only record that can change is the one named by the first 20 code points of
  \<open>a\<close>, each one that is not an ASCII letter or digit replaced by \<open>_\<close>, followed by
  \<open>.txt\<close>.  If the file cannot be opened, no record changes.  If it is opened and
  written, the record holds \<open>msg\<close> stripped of the whitespace at its two ends.  If it is
  opened and the writing fails, the record is left with the part of the stripped text that
  reached it, which may be none of it.
\<close>

theorem search_auto_save:
  assumes "sink_accepts en"
  shows "(\<forall>v. (\<forall>s. v \<noteq> JStr s) \<longrightarrow>
               dispatch en (JStr (u ''SearchAgent'')) v w = Raise (TypeError v) w)
       \<and> (\<exists>msg w1 w'.
             search_agent_run en a w = Ok msg w1
           \<and> dispatch en (JStr (u ''SearchAgent'')) (JStr a) w = Ok msg w'
           \<and> published w' = published w @ [Log (JStr (u ''KnowledgeAgent'')) (auto_saved a) Info]
           \<and> (let name = map (\<lambda>c. if is_alnum c then c else 95) (take 20 a) @ u ''.txt'' in
                (\<forall>n. n \<noteq> name \<longrightarrow> map_of (files w') n = map_of (files w) n)
              \<and> (case open_error en w1 name of
                   Some e \<Rightarrow> files w' = files w
                 | None \<Rightarrow>
                     (case write_error en w1 name of
                        None \<Rightarrow> map_of (files w') name = Some (strip msg)
                      | Some (e, k) \<Rightarrow> map_of (files w') name = Some (take k (strip msg))))))"
proof
  show "\<forall>v. (\<forall>s. v \<noteq> JStr s) \<longrightarrow>
               dispatch en (JStr (u ''SearchAgent'')) v w = Raise (TypeError v) w"
  proof (intro allI impI)
    fix v :: json assume "\<forall>s. v \<noteq> JStr s"
    then show "dispatch en (JStr (u ''SearchAgent'')) v w = Raise (TypeError v) w"
      by (cases v) (simp_all add: dispatch_def)
  qed
next
  obtain msg w1 where 1: "search_agent_run en a w = Ok msg w1"
    using search_agent_run_frame(1)[of en a w] by (cases "search_agent_run en a w") simp_all
  have f1: "files w1 = files w" and p1: "published w1 = published w"
    using search_agent_run_frame(4)[of en a w] search_agent_run_frame(2)[of en a w] 1 by simp_all
  let ?name = "map (\<lambda>c. if is_alnum c then c else 95) (take 20 a) @ u ''.txt''"
  let ?P = "\<lambda>msg w1 w'.
             search_agent_run en a w = Ok msg w1
           \<and> dispatch en (JStr (u ''SearchAgent'')) (JStr a) w = Ok msg w'
           \<and> published w' = published w @ [Log (JStr (u ''KnowledgeAgent'')) (auto_saved a) Info]
           \<and> (let name = map (\<lambda>c. if is_alnum c then c else 95) (take 20 a) @ u ''.txt'' in
                (\<forall>n. n \<noteq> name \<longrightarrow> map_of (files w') n = map_of (files w) n)
              \<and> (case open_error en w1 name of
                   Some e \<Rightarrow> files w' = files w
                 | None \<Rightarrow>
                     (case write_error en w1 name of
                        None \<Rightarrow> map_of (files w') name = Some (strip msg)
                      | Some (e, k) \<Rightarrow> map_of (files w') name = Some (take k (strip msg)))))"
  have "\<exists>w'. ?P msg w1 w'"
  proof (cases "open_error en w1 ?name")
    case (Some e)
    then show ?thesis using 1 f1 p1 assms
      by (simp add: search_dispatch search_step_def add_knowledge_def and_then_def
          broadcast_accepts Let_def safe_auto_filename auto_filename_def[symmetric])
  next
    case None
    show ?thesis
    proof (cases "write_error en w1 ?name")
      case wn: None
      then show ?thesis using None 1 f1 p1 assms
        by (simp add: search_dispatch search_step_def add_knowledge_def and_then_def
            broadcast_accepts Let_def safe_auto_filename map_of_write_file
            auto_filename_def[symmetric])
    next
      case (Some ek)
      obtain e k where "ek = (e, k)" by (cases ek)
      then show ?thesis using Some None 1 f1 p1 assms
        by (simp add: search_dispatch search_step_def add_knowledge_def and_then_def
            broadcast_accepts Let_def safe_auto_filename map_of_write_file
            auto_filename_def[symmetric])
    qed
  qed
  then show "\<exists>msg w1 w'. ?P msg w1 w'" by blast
qed

theorem search_auto_save_witness:
  "dispatch demo_env (JStr (u ''SearchAgent'')) (JNum 7) w0 = Raise (TypeError (JNum 7)) w0
   \<and> (\<exists>msg w1 w'.
     search_agent_run demo_env (u ''pizza in Rome'') w0 = Ok msg w1
   \<and> dispatch demo_env (JStr (u ''SearchAgent'')) (JStr (u ''pizza in Rome'')) w0 = Ok msg w'
   \<and> published w' = [Log (JStr (u ''KnowledgeAgent'')) (auto_saved (u ''pizza in Rome'')) Info]
   \<and> map_of (files w') (u ''pizza_in_Rome.txt'') = Some (strip msg))"
proof -
  have "map (\<lambda>c. if is_alnum c then c else 95) (take 20 (u ''pizza in Rome'')) @ u ''.txt''
          = u ''pizza_in_Rome.txt''"
    by (simp add: is_alnum_def u_def)
  then show ?thesis
    using search_auto_save[OF demo_accepts, of w0 "u ''pizza in Rome''"]
    by (simp add: demo_fields Let_def w0_def) blast
qed




lemma cmatch_classes [simp]:
  "cmatch nd Space = is_space"
  "cmatch nd Dot = (\<lambda>c. c \<noteq> 10)"
  "cmatch nd (NoneOf [Space]) = (\<lambda>c. \<not> is_space c)"
  by (rule ext, simp)+










text \<open>Facts about a successful repetition, about \<open>search\<close>, and about the phone pattern.\<close>

lemma rep_greedy_Some:
  "rep_greedy p lo hi i s k = Some r \<Longrightarrow>
   \<exists>n. lo \<le> n \<and> n \<le> length s \<and> (\<forall>h. hi = Some h \<longrightarrow> n \<le> h) \<and> list_all p (take n s)
       \<and> k (i + n) (drop n s) = Some r"
proof (induction s arbitrary: lo hi i)
  case Nil
  then show ?case by (auto split: if_splits)
next
  case (Cons x xs)
  show ?case
  proof (cases "p x \<and> hi \<noteq> Some 0 \<and> rep_greedy p (lo - 1) (dec hi) (Suc i) xs k = Some r")
    case True
    from Cons.IH[of "lo - 1" "dec hi" "Suc i"] True obtain n where
      n: "lo - 1 \<le> n" "n \<le> length xs" "\<forall>h. dec hi = Some h \<longrightarrow> n \<le> h"
         "list_all p (take n xs)" "k (Suc i + n) (drop n xs) = Some r"
      by blast
    have "\<forall>h. hi = Some h \<longrightarrow> Suc n \<le> h"
    proof (intro allI impI)
      fix h assume h: "hi = Some h"
      with True have "h \<noteq> 0" by simp
      moreover from n(3) h have "n \<le> h - 1" by simp
      ultimately show "Suc n \<le> h" by simp
    qed
    then show ?thesis
      using n True by (intro exI[of _ "Suc n"]) simp
  next
    case False
    then have "lo = 0 \<and> k i (x # xs) = Some r"
      using Cons.prems by (auto split: if_splits option.splits)
    then show ?thesis by (intro exI[of _ 0]) simp
  qed
qed

lemma search_from_Some:
  "search_from nd r i s = Some m \<Longrightarrow>
   \<exists>j. j \<le> length s \<and>
       rmatch nd r (i + j) (drop j s) []
         (\<lambda>i' s' cs. Some \<lparr>m_start = i + j, m_end = i', m_groups = cs\<rparr>) = Some m"
proof (induction s arbitrary: i)
  case Nil
  then show ?case by simp
next
  case (Cons x xs)
  show ?case
  proof (cases "rmatch nd r i (x # xs) []
                  (\<lambda>i' s' cs. Some \<lparr>m_start = i, m_end = i', m_groups = cs\<rparr>)")
    case None
    then have "search_from nd r (Suc i) xs = Some m" using Cons.prems by simp
    from Cons.IH[OF this] obtain j where "j \<le> length xs"
      "rmatch nd r (Suc i + j) (drop j xs) []
         (\<lambda>i' s' cs. Some \<lparr>m_start = Suc i + j, m_end = i', m_groups = cs\<rparr>) = Some m"
      by blast
    then show ?thesis by (intro exI[of _ "Suc j"]) simp
  next
    case (Some m')
    then have "m' = m" using Cons.prems by simp
    with Some show ?thesis by (intro exI[of _ 0]) simp
  qed
qed

text \<open>The digit and what follows it, at position \<open>i\<close>, for a match that started at \<open>j\<close>.\<close>

lemma phone_digits:
  assumes "rmatch nd (Cat (Chr Digit) (Rep (OneOf [Digit, Space, Lit 45]) 9 (Some 15) True)) i s cs
             (\<lambda>i' s' cs'. Some \<lparr>m_start = j, m_end = i', m_groups = (1, take (i' - j) s0) # cs'\<rparr>)
           = Some m"
  shows "\<exists>d tail post. s = d # tail @ post \<and> cmatch nd Digit d \<and> 9 \<le> length tail
           \<and> length tail \<le> 15 \<and> list_all (cmatch nd (OneOf [Digit, Space, Lit 45])) tail
           \<and> m_group m 1 = take (Suc i + length tail - j) s0"
proof (cases s)
  case Nil
  then show ?thesis using assms by simp
next
  case (Cons d xs)
  let ?p = "cmatch nd (OneOf [Digit, Space, Lit 45])"
  from assms Cons have d: "cmatch nd Digit d"
    and g: "rep_greedy ?p 9 (Some 15) (Suc i) xs
              (\<lambda>i' s'. Some \<lparr>m_start = j, m_end = i', m_groups = (1, take (i' - j) s0) # cs\<rparr>) = Some m"
    by (simp_all split: if_splits)
  from rep_greedy_Some[OF g] obtain n where
    n: "9 \<le> n" "n \<le> length xs" "n \<le> 15" "list_all ?p (take n xs)"
       "m = \<lparr>m_start = j, m_end = Suc i + n, m_groups = (1, take (Suc i + n - j) s0) # cs\<rparr>"
    by auto
  have "s = d # take n xs @ drop n xs" using Cons by simp
  moreover have "length (take n xs) = n" using n(2) by simp
  moreover have "m_group m 1 = take (Suc i + n - j) s0" using n(5) by (simp add: m_group_def)
  ultimately show ?thesis using d n(1,3,4) by metis
qed

lemma phone_match:
  assumes "re_search nd phone_re a = Some m"
  shows "\<exists>pre sign d tail post.
           a = pre @ sign @ d # tail @ post \<and> m_group m 1 = sign @ d # tail
         \<and> (sign = [] \<or> sign = [43]) \<and> cmatch nd Digit d \<and> 9 \<le> length tail \<and> length tail \<le> 15
         \<and> list_all (cmatch nd (OneOf [Digit, Space, Lit 45])) tail"
proof -
  from search_from_Some[OF assms[unfolded re_search_def]] obtain j where
    j: "j \<le> length a"
       "rmatch nd phone_re j (drop j a) []
          (\<lambda>i' s' cs. Some \<lparr>m_start = j, m_end = i', m_groups = cs\<rparr>) = Some m"
    by auto
  let ?s0 = "drop j a"
  let ?core = "Cat (Chr Digit) (Rep (OneOf [Digit, Space, Lit 45]) 9 (Some 15) True)"
  let ?K = "\<lambda>i' s' cs'. Some \<lparr>m_start = j, m_end = i', m_groups = (1, take (i' - j) ?s0) # cs'\<rparr>"
  have a: "a = take j a @ ?s0" by simp
  have alt: "(\<exists>xs. ?s0 = 43 # xs \<and> rmatch nd ?core (Suc j) xs [] ?K = Some m)
             \<or> rmatch nd ?core j ?s0 [] ?K = Some m"
    using j(2) by (cases ?s0) (auto simp: phone_re_def split: if_splits option.splits)
  then show ?thesis
  proof
    assume "\<exists>xs. ?s0 = 43 # xs \<and> rmatch nd ?core (Suc j) xs [] ?K = Some m"
    then obtain xs where xs: "?s0 = 43 # xs" "rmatch nd ?core (Suc j) xs [] ?K = Some m" by blast
    from phone_digits[OF xs(2)] obtain d tail post where
      t: "xs = d # tail @ post" "cmatch nd Digit d" "9 \<le> length tail" "length tail \<le> 15"
         "list_all (cmatch nd (OneOf [Digit, Space, Lit 45])) tail"
         "m_group m 1 = take (Suc (Suc j) + length tail - j) ?s0"
      by blast
    have "m_group m 1 = [43] @ d # tail" using t(6) xs(1) t(1) by simp
    moreover have "a = take j a @ [43] @ d # tail @ post" using a xs(1) t(1) by simp
    ultimately show ?thesis using t(2-5) by blast
  next
    assume "rmatch nd ?core j ?s0 [] ?K = Some m"
    from phone_digits[OF this] obtain d tail post where
      t: "?s0 = d # tail @ post" "cmatch nd Digit d" "9 \<le> length tail" "length tail \<le> 15"
         "list_all (cmatch nd (OneOf [Digit, Space, Lit 45])) tail"
         "m_group m 1 = take (Suc j + length tail - j) ?s0"
      by blast
    have "m_group m 1 = [] @ d # tail" using t(6) t(1) by simp
    moreover have "a = take j a @ [] @ d # tail @ post" using a t(1) by simp
    ultimately show ?thesis using t(2-5) by blast
  qed
qed

text \<open>Facts about \<open>split\<close>, \<open>in\<close> and \<open>strip\<close>.\<close>

declare split_from.simps [simp del]












text \<open>
  C9.  A run the claim excludes: every call of the planner is answered with the status
  429, the body being a well-formed chat completion.  After three calls, each followed by
  a sleep of five seconds, \<open>_groq_request\<close> raises nothing: the loop is left with the
  third response in hand and its body is read as the plan, which is then executed, with
  the status events of its steps.
\<close>

theorem rate_limited_plan_runs:
  "planning limited_env (u ''plan my day'') w0 =
     Ok plan_steps
        (w0\<lparr>published := [Log (JStr (u ''PlannerAgent'')) (u ''Groq is planning...'') Info],
            requests := [PlannerPost (u ''plan my day''), Sleep 5, PlannerPost (u ''plan my day''),
                         Sleep 5, PlannerPost (u ''plan my day''), Sleep 5]\<rparr>)
   \<and> published (world_of (execute_plan limited_env (u ''plan my day'') w0)) =
     [Log (JStr (u ''PlannerAgent'')) (u ''Groq is planning...'') Info,
      PlanEvent plan_steps,
      StatusUpdate (JStr (u ''Schedule sync for tomorrow'')) InProgress,
      Log (JStr (u ''CalendarAgent'')) (u ''Error: token expired'') Error,
      StatusUpdate (JStr (u ''Post 'done' to #ops. Info: Error: token expired'')) InProgress,
      StatusUpdate (JStr (u ''Post 'done' to #ops. Info: Error: token expired'')) Completed,
      Log (JStr (u ''SlackAgent'')) (u ''Message successfully posted to #ops.'') Info,
      Log (JStr (u ''System'')) (u ''All tasks done!'') Success]"
proof -
  have p: "planning limited_env (u ''plan my day'') w0 =
     Ok plan_steps
        (w0\<lparr>published := [Log (JStr (u ''PlannerAgent'')) (u ''Groq is planning...'') Info],
            requests := [PlannerPost (u ''plan my day''), Sleep 5, PlannerPost (u ''plan my day''),
                         Sleep 5, PlannerPost (u ''plan my day''), Sleep 5]\<rparr>)"
    by (simp add: planning_def and_then_def broadcast_accepts limited_accepts limited_request w0_def)
  show ?thesis
    using two_step_run[OF limited_accepts p] p
    by (simp add: limited_env_def demo_fields)
qed

text \<open>
  The same three answers with the body of an error: reading the body raises the
  \<open>KeyError\<close> of the missing key \<open>choices\<close>, which \<open>execute_plan\<close> reports as the
  failure of the planning; no step runs.
\<close>

lemma rate_limited_error_body:
  "execute_plan refused_env p w0 =
     Ok () (w0\<lparr>published := [Log (JStr (u ''PlannerAgent'')) (u ''Groq is planning...'') Info,
                             Log (JStr (u ''System''))
                               (u ''Planning failed: '' @ [39] @ u ''choices'' @ [39]) Error],
               requests := [PlannerPost p, Sleep 5, PlannerPost p, Sleep 5, PlannerPost p, Sleep 5]\<rparr>)"
  by (simp add: execute_plan_eval planning_def and_then_def broadcast_accepts refused_accepts
      refused_request exn_str_def w0_def)

text \<open>A status from 400 to 599 other than 429 ends the planning at the first call.\<close>

lemma error_status_is_final:
  assumes "groq_api_key en" and "planner_post en w prompt = Inr r"
    and "400 \<le> status_code r" and "status_code r < 600" and "status_code r \<noteq> 429"
  shows "groq_request en prompt w = Raise (HTTPError (status_code r)) (log_request (PlannerPost prompt) w)"
  using assms by (simp add: planning_defs)

text \<open>
  C10.  Whatever the query and whatever the services would answer, a knowledge agent whose
  loaded text is empty returns exactly
  \<open>Knowledge base is empty. I don't have internal info on this.\<close>, and the world it leaves
  is the world it started in: no request to the language model, or to anything else, is
  made.
\<close>

theorem knowledge_run_empty:
  "knowledge_agent_run en query (w\<lparr>knowledge := []\<rparr>) =
     Ok (u ''Knowledge base is empty. I don't have internal info on this.'') (w\<lparr>knowledge := []\<rparr>)
   \<and> requests (case knowledge_agent_run en query (w\<lparr>knowledge := []\<rparr>) of
                  Ok s w' \<Rightarrow> w' | Raise e w' \<Rightarrow> w') = requests w"
  by (simp add: knowledge_agent_run_def)

end
